theory Spec2Isabelle
  imports Complex_Main "HOL-Library.AList"
begin

section \<open>floppy-copy: a shallow embedding of \<^verbatim>\<open>floppy_copy.py\<close>\<close>

text \<open>
  The script is a linear pipeline: \<^verbatim>\<open>find_pictures\<close>, \<^verbatim>\<open>create_target_filenames\<close>,
  \<^verbatim>\<open>copy_files\<close> and, behind a guard, \<^verbatim>\<open>wipe_disk\<close>. Everything it does beyond
  computing strings is a call into the operating system or the logger. The embedding makes
  those calls explicit: every function takes the trace of the calls made so far and
  returns its result together with the extended trace. What the operating system answers
  is given by an environment of oracles, each of which may look at the whole trace, so
  that an answer may depend on everything that happened before (a copy may fail because
  an earlier one filled the disk).
\<close>

subsection \<open>Paths\<close>

text \<open>
  A \<^verbatim>\<open>pathlib.Path\<close> is its list of components. \<^verbatim>\<open>p / n\<close> appends the component
  \<^verbatim>\<open>n\<close>, \<^verbatim>\<open>p.name\<close> is the last component.
\<close>

type_synonym path = "string list"

definition joinpath :: "path \<Rightarrow> string \<Rightarrow> path" where
  "joinpath p n = p @ [n]"

definition path_name :: "path \<Rightarrow> string" where
  "path_name p = (if p = [] then [] else last p)"

text \<open>
  \<^verbatim>\<open>str.rfind\<close> for a single character: the index of its last occurrence, or \<open>-1\<close>.
\<close>

definition rfind :: "string \<Rightarrow> char \<Rightarrow> int" where
  "rfind s c =
     (if c \<in> set s
      then int (length s) - 1 - int (length (takeWhile (\<lambda>x. x \<noteq> c) (rev s)))
      else - 1)"

text \<open>
  \<^verbatim>\<open>PurePath.suffix\<close> as Python 3.12 defines it (the script needs 3.12 for
  \<^verbatim>\<open>glob(..., case_sensitive=False)\<close>):
  \<^verbatim>\<open>
    name = self.name
    i = name.rfind('.')
    if 0 < i < len(name) - 1:
        return name[i:]
    else:
        return ''
  \<close>
\<close>

definition path_suffix :: "path \<Rightarrow> string" where
  "path_suffix p =
     (let name = path_name p; i = rfind name (CHR ''.'')
      in if 0 < i \<and> i < int (length name) - 1 then drop (nat i) name else [])"

subsection \<open>Strings: decimal numbers, lower case, the glob pattern\<close>

text \<open>The decimal digit \<open>d\<close>, for \<open>d < 10\<close>.\<close>

definition digit_char :: "nat \<Rightarrow> char" where
  "digit_char d = ''0123456789'' ! d"

text \<open>
  \<^verbatim>\<open>str(i)\<close> of a non-negative integer, which is what the f-string \<^verbatim>\<open>{i}\<close> prints. The
  counter of the suffix loop starts at 0 and is only incremented, so it is a \<open>nat\<close>.
\<close>

fun str_nat :: "nat \<Rightarrow> string" where
  "str_nat n = (if n < 10 then [digit_char n] else str_nat (n div 10) @ [digit_char (n mod 10)])"

declare str_nat.simps [simp del]

text \<open>
  \<^verbatim>\<open>str.lower\<close> on the ASCII letters. No character outside ASCII lower-cases to one of
  \<^verbatim>\<open>y\<close>, \<^verbatim>\<open>e\<close>, \<^verbatim>\<open>s\<close>, \<^verbatim>\<open>j\<close>, \<^verbatim>\<open>p\<close>, \<^verbatim>\<open>g\<close>, which are the only letters the script
  compares lower-cased text with.
\<close>

definition lower_char :: "char \<Rightarrow> char" where
  "lower_char c =
     (case map_of (zip ''ABCDEFGHIJKLMNOPQRSTUVWXYZ'' ''abcdefghijklmnopqrstuvwxyz'') c of
        Some l \<Rightarrow> l
      | None \<Rightarrow> c)"

definition lower :: "string \<Rightarrow> string" where
  "lower s = map lower_char s"

text \<open>
  The pattern \<^verbatim>\<open>*.jpg\<close> matched with \<^verbatim>\<open>case_sensitive=False\<close>: the name ends, up to
  case, in \<^verbatim>\<open>.jpg\<close>. The star matches the empty string and hidden names too.
\<close>

definition glob_jpg :: "string \<Rightarrow> bool" where
  "glob_jpg name = (4 \<le> length name \<and> lower (drop (length name - 4) name) = ''.jpg'')"

subsection \<open>Time stamps\<close>

text \<open>
  The broken-down local time \<^verbatim>\<open>datetime.datetime.fromtimestamp\<close> returns. Its fields
  are in range (month 1 to 12, hour 0 to 23, and so on), so each of \<^verbatim>\<open>%m %d %H %M %S\<close>
  prints exactly two digits, and \<^verbatim>\<open>%y\<close> prints the year modulo 100.
\<close>

record datetime =
  year :: nat
  month :: nat
  day :: nat
  hour :: nat
  minute :: nat
  second :: nat

definition two_digits :: "nat \<Rightarrow> string" where
  "two_digits n = [digit_char (n div 10 mod 10), digit_char (n mod 10)]"

text \<open>\<^verbatim>\<open>strftime("%y%m%d_%H%M%S")\<close>\<close>

definition strftime :: "datetime \<Rightarrow> string" where
  "strftime dt =
     two_digits (year dt) @ two_digits (month dt) @ two_digits (day dt) @ ''_'' @
     two_digits (hour dt) @ two_digits (minute dt) @ two_digits (second dt)"

subsection \<open>Exceptions, log records, the trace and the environment\<close>

text \<open>
  An exception is its class, its own message (what \<^verbatim>\<open>str(e)\<close> shows: for an
  \<^verbatim>\<open>OSError\<close> the error number, its text and the file name) and the notes added with
  \<^verbatim>\<open>add_note\<close>. Three classes are told apart: \<^verbatim>\<open>AttributeError\<close>, which \<^verbatim>\<open>extract_timestamp\<close> catches, \<^verbatim>\<open>OSError\<close>
  (with its subclasses \<^verbatim>\<open>FileNotFoundError\<close>, \<^verbatim>\<open>PermissionError\<close>), and any other
  subclass of \<^verbatim>\<open>Exception\<close>. All three are caught by \<^verbatim>\<open>except Exception\<close>.
  \<^verbatim>\<open>KeyboardInterrupt\<close> and \<^verbatim>\<open>SystemExit\<close> are outside the model.
\<close>

datatype exn_class = AttributeError | OSError | OtherException

datatype exn_note = MetadataNoTimestamp path | CouldNotSetOwnership

datatype exn = Exn (exn_class: exn_class) (exn_msg: string) (exn_notes: "exn_note list")

definition add_note :: "exn \<Rightarrow> exn_note \<Rightarrow> exn" where
  "add_note e n = Exn (exn_class e) (exn_msg e) (exn_notes e @ [n])"

datatype level = INFO | WARNING | ERROR

text \<open>The log messages of the script, one constructor for each format string.\<close>

datatype log_msg =
    PicturesFound nat
  | ExnMsg exn
  | CopiedSummary nat nat
  | FailedSummary nat nat
  | PathMsg path
  | WillBeRemoved path
  | DirContentsHeader
  | DirContents "string list"
  | Removed path
  | NothingRemoved
  | AbortingWipe

text \<open>
  The trace: one event for each log record and for each call into the operating system.
  \<open>EvScandir\<close> stands for reading a directory (\<^verbatim>\<open>iterdir\<close>, \<^verbatim>\<open>glob\<close>, \<^verbatim>\<open>os.listdir\<close>).
\<close>

datatype event =
    EvLog level log_msg
  | EvScandir path
  | EvStat path
  | EvCopy2 path path
  | EvChown path nat nat
  | EvInput
  | EvIsDir path
  | EvRmtree path
  | EvRemove path

text \<open>
  The environment. Each oracle takes the trace so far. \<open>os_stat_mtime\<close> is the outcome
  of evaluating \<^verbatim>\<open>path.stat().st_mtime\<close>; \<open>os_copy2\<close> returns what \<^verbatim>\<open>shutil.copy2\<close>
  returns, the path of the newly created file; \<open>os_fromtimestamp\<close> is the conversion to
  local time, which depends on the time zone and raises for a time out of range.
\<close>

record env =
  os_scandir :: "event list \<Rightarrow> path \<Rightarrow> exn + string list"
  os_stat_mtime :: "event list \<Rightarrow> path \<Rightarrow> exn + real"
  os_fromtimestamp :: "real \<Rightarrow> exn + datetime"
  os_copy2 :: "event list \<Rightarrow> path \<Rightarrow> path \<Rightarrow> exn + path"
  os_chown :: "event list \<Rightarrow> path \<Rightarrow> nat \<Rightarrow> nat \<Rightarrow> exn option"
  os_input :: "event list \<Rightarrow> exn + string"
  os_is_dir :: "event list \<Rightarrow> path \<Rightarrow> bool"
  os_rmtree :: "event list \<Rightarrow> path \<Rightarrow> exn option"
  os_remove :: "event list \<Rightarrow> path \<Rightarrow> exn option"
  os_getuid :: nat

subsection \<open>The Scanner: \<^verbatim>\<open>find_pictures\<close>\<close>

text \<open>
  \<^verbatim>\<open>Path.glob\<close> of Python 3.12 reads the directory inside
  \<^verbatim>\<open>try: ... except OSError: pass\<close>: when the directory cannot be read it yields nothing
  and raises nothing.
\<close>

definition glob_names :: "env \<Rightarrow> event list \<Rightarrow> path \<Rightarrow> string list" where
  "glob_names env tr dir_path =
     (case os_scandir env tr dir_path of Inl e \<Rightarrow> [] | Inr names \<Rightarrow> names)"

definition find_pictures :: "env \<Rightarrow> event list \<Rightarrow> path \<Rightarrow> (exn + path list) \<times> event list" where
  "find_pictures env tr source_dir_path =
     (let pictures_paths =
            map (joinpath source_dir_path) (filter glob_jpg (glob_names env tr source_dir_path))
      in (Inr pictures_paths,
          tr @ [EvScandir source_dir_path,
                EvLog INFO (PicturesFound (length pictures_paths))]))"

subsection \<open>The Namer: \<^verbatim>\<open>create_target_filenames\<close>\<close>

text \<open>
  \<^verbatim>\<open>extract_timestamp\<close>: only an \<^verbatim>\<open>AttributeError\<close> gets the note; any other exception
  of \<^verbatim>\<open>path.stat()\<close> leaves the \<^verbatim>\<open>try\<close> as it is, and \<^verbatim>\<open>fromtimestamp\<close> is called
  outside the \<^verbatim>\<open>try\<close>.
\<close>

definition extract_timestamp :: "env \<Rightarrow> event list \<Rightarrow> path \<Rightarrow> exn + string" where
  "extract_timestamp env tr path =
     (case os_stat_mtime env tr path of
        Inl e \<Rightarrow>
          (if exn_class e = AttributeError
           then Inl (add_note e (MetadataNoTimestamp path))
           else Inl e)
      | Inr file_mtime \<Rightarrow>
          (case os_fromtimestamp env file_mtime of
             Inl e \<Rightarrow> Inl e
           | Inr dt \<Rightarrow> Inr (strftime dt)))"

text \<open>The f-string \<^verbatim>\<open>f"{timestamp}_{i}{extension}"\<close>.\<close>

definition suffixed_name :: "string \<Rightarrow> nat \<Rightarrow> string \<Rightarrow> string" where
  "suffixed_name timestamp i extension = timestamp @ ''_'' @ str_nat i @ extension"

text \<open>
  The \<^verbatim>\<open>while\<close> loop of the Namer, on its two variables \<^verbatim>\<open>i\<close> and \<^verbatim>\<open>new_filename\<close>:
  \<^verbatim>\<open>
    while new_filename in new_names.values() or new_filename in target_dir_files:
        i += 1
        new_filename = f"{timestamp}_{i}{extension}"
  \<close>
  \<open>vals\<close> is \<^verbatim>\<open>new_names.values()\<close>. Nothing in the source bounds the loop, so its
  termination is proved below, from the finiteness of the two lists.
\<close>

function (domintros) suffix_search ::
  "string list \<Rightarrow> string list \<Rightarrow> string \<Rightarrow> string \<Rightarrow> nat \<Rightarrow> string \<Rightarrow> string" where
  "suffix_search vals target_dir_files timestamp extension i new_filename =
     (if new_filename \<in> set vals \<or> new_filename \<in> set target_dir_files
      then suffix_search vals target_dir_files timestamp extension (i + 1)
             (suffixed_name timestamp (i + 1) extension)
      else new_filename)"
  by pat_completeness auto

lemma of_char_digit_char: "d < 10 \<Longrightarrow> (of_char (digit_char d) :: nat) = 48 + d"
proof -
  assume "d < 10"
  then consider "d = 0" | "d = 1" | "d = 2" | "d = 3" | "d = 4"
    | "d = 5" | "d = 6" | "d = 7" | "d = 8" | "d = 9"
    by atomize_elim arith
  then show ?thesis
    by cases (simp_all add: digit_char_def)
qed

lemma digit_char_inj: "d < 10 \<Longrightarrow> e < 10 \<Longrightarrow> digit_char d = digit_char e \<Longrightarrow> d = e"
  by (metis of_char_digit_char add_left_cancel)

lemma str_nat_nonempty: "str_nat n \<noteq> []"
  by (subst str_nat.simps) simp

lemma str_nat_inj: "str_nat m = str_nat n \<Longrightarrow> m = n"
proof (induction m arbitrary: n rule: str_nat.induct)
  case (1 m)
  show ?case
  proof (cases "m < 10")
    case small_m: True
    show ?thesis
    proof (cases "n < 10")
      case True
      with small_m "1.prems" show ?thesis
        by (simp add: str_nat.simps [of m] str_nat.simps [of n] digit_char_inj)
    next
      case False
      with small_m "1.prems" str_nat_nonempty [of "n div 10"] show ?thesis
        by (simp add: str_nat.simps [of m] str_nat.simps [of n])
    qed
  next
    case big_m: False
    show ?thesis
    proof (cases "n < 10")
      case True
      with big_m "1.prems" str_nat_nonempty [of "m div 10"] show ?thesis
        by (simp add: str_nat.simps [of m] str_nat.simps [of n])
    next
      case False
      with big_m "1.prems" have
        heads: "str_nat (m div 10) = str_nat (n div 10)" and
        lasts: "digit_char (m mod 10) = digit_char (n mod 10)"
        by (simp_all add: str_nat.simps [of m] str_nat.simps [of n])
      from "1.IH" [OF big_m heads] have "m div 10 = n div 10" .
      moreover from lasts have "m mod 10 = n mod 10"
        by (intro digit_char_inj) simp_all
      ultimately show ?thesis
        by (metis div_mult_mod_eq)
    qed
  qed
qed

lemma suffixed_name_inj:
  "suffixed_name timestamp i extension = suffixed_name timestamp j extension \<Longrightarrow> i = j"
  by (simp add: suffixed_name_def str_nat_inj)

text \<open>
  The indices above \<open>i\<close> whose suffixed name is taken. The set is finite, because the
  suffixed names of different indices differ, and it shrinks with every turn of the loop.
\<close>

definition taken_above :: "string list \<Rightarrow> string list \<Rightarrow> string \<Rightarrow> string \<Rightarrow> nat \<Rightarrow> nat set" where
  "taken_above vals target_dir_files timestamp extension i =
     {j. i < j \<and> suffixed_name timestamp j extension \<in> set vals \<union> set target_dir_files}"

lemma finite_taken_above: "finite (taken_above vals tdf ts ext i)"
proof -
  have "inj (\<lambda>j. suffixed_name ts j ext)"
    by (rule injI) (rule suffixed_name_inj)
  then have "finite ((\<lambda>j. suffixed_name ts j ext) -` (set vals \<union> set tdf))"
    by (intro finite_vimageI) simp_all
  moreover have
    "taken_above vals tdf ts ext i \<subseteq> (\<lambda>j. suffixed_name ts j ext) -` (set vals \<union> set tdf)"
    by (auto simp: taken_above_def)
  ultimately show ?thesis
    by (rule rev_finite_subset)
qed

lemma taken_above_step:
  "taken_above vals tdf ts ext i =
     (if suffixed_name ts (i + 1) ext \<in> set vals \<union> set tdf
      then insert (i + 1) (taken_above vals tdf ts ext (i + 1))
      else taken_above vals tdf ts ext (i + 1))"
proof -
  have "\<And>j. i < j \<longleftrightarrow> j = i + 1 \<or> i + 1 < j" by arith
  then show ?thesis
    unfolding taken_above_def by auto
qed

lemma card_taken_above_step:
  "card (taken_above vals tdf ts ext i) =
     card (taken_above vals tdf ts ext (i + 1)) +
     (if suffixed_name ts (i + 1) ext \<in> set vals \<union> set tdf then 1 else 0)"
proof -
  have "i + 1 \<notin> taken_above vals tdf ts ext (i + 1)"
    by (simp add: taken_above_def)
  then show ?thesis
    by (subst taken_above_step) (simp add: finite_taken_above)
qed

definition search_measure ::
  "string list \<times> string list \<times> string \<times> string \<times> nat \<times> string \<Rightarrow> nat" where
  "search_measure = (\<lambda>(vals, tdf, ts, ext, i, nf).
     card (taken_above vals tdf ts ext i) + (if nf \<in> set vals \<union> set tdf then 1 else 0))"

lemma suffix_search_dom_all: "suffix_search_dom (vals, tdf, ts, ext, i, nf)"
proof (induction "search_measure (vals, tdf, ts, ext, i, nf)" arbitrary: i nf rule: less_induct)
  case less
  have step: "suffix_search_dom (vals, tdf, ts, ext, Suc i, suffixed_name ts (Suc i) ext)"
    if "nf \<in> set vals \<or> nf \<in> set tdf"
  proof -
    from that have "search_measure (vals, tdf, ts, ext, i + 1, suffixed_name ts (i + 1) ext)
        < search_measure (vals, tdf, ts, ext, i, nf)"
      by (simp add: search_measure_def card_taken_above_step [of vals tdf ts ext i])
    then have "suffix_search_dom (vals, tdf, ts, ext, i + 1, suffixed_name ts (i + 1) ext)"
      by (rule less)
    then show ?thesis by simp
  qed
  show ?case
    by (rule suffix_search.domintros) (simp_all add: step)
qed

termination suffix_search
proof (rule allI)
  fix x :: "string list \<times> string list \<times> string \<times> string \<times> nat \<times> string"
  show "suffix_search_dom x"
    by (cases x rule: prod_cases6) (simp add: suffix_search_dom_all)
qed

declare suffix_search.simps [simp del]

text \<open>
  The dictionary \<^verbatim>\<open>new_names\<close> is an association list in insertion order, which is the
  order \<^verbatim>\<open>items()\<close> and \<^verbatim>\<open>values()\<close> follow. \<^verbatim>\<open>new_names[filepath] = new_filename\<close>
  is \<open>AList.update\<close>: a key already present keeps its place and takes the new value, a
  new key goes to the end.

  The body of \<^verbatim>\<open>for filepath in pictures_paths\<close>. An exception of
  \<^verbatim>\<open>extract_timestamp\<close> is not caught: it ends the whole loop.
\<close>

fun create_target_filenames_loop ::
  "env \<Rightarrow> string list \<Rightarrow> path list \<Rightarrow> (path \<times> string) list \<Rightarrow> event list \<Rightarrow>
   (exn + (path \<times> string) list) \<times> event list" where
  "create_target_filenames_loop env target_dir_files [] new_names tr = (Inr new_names, tr)"
| "create_target_filenames_loop env target_dir_files (filepath # rest) new_names tr =
     (case extract_timestamp env tr filepath of
        Inl e \<Rightarrow> (Inl e, tr @ [EvStat filepath])
      | Inr timestamp \<Rightarrow>
          (let extension = path_suffix filepath;
               new_filename =
                 suffix_search (map snd new_names) target_dir_files timestamp extension 0
                   (timestamp @ extension)
           in create_target_filenames_loop env target_dir_files rest
                (AList.update filepath new_filename new_names) (tr @ [EvStat filepath])))"

definition create_target_filenames ::
  "env \<Rightarrow> event list \<Rightarrow> path \<Rightarrow> path list \<Rightarrow> (exn + (path \<times> string) list) \<times> event list" where
  "create_target_filenames env tr target_dir_path pictures_paths =
     (case os_scandir env tr target_dir_path of
        Inl e \<Rightarrow> (Inl e, tr @ [EvScandir target_dir_path])
      | Inr target_dir_files \<Rightarrow>
          create_target_filenames_loop env target_dir_files pictures_paths []
            (tr @ [EvScandir target_dir_path]))"

subsection \<open>The Copier: \<^verbatim>\<open>copy_files\<close>\<close>

text \<open>
  The copy pass. \<^verbatim>\<open>success_paths\<close> takes what \<^verbatim>\<open>shutil.copy2\<close> returns,
  \<^verbatim>\<open>fail_paths\<close> takes the source path.
\<close>

fun copy_loop ::
  "env \<Rightarrow> path \<Rightarrow> (path \<times> string) list \<Rightarrow> path list \<times> path list \<times> event list \<Rightarrow>
   path list \<times> path list \<times> event list" where
  "copy_loop env target_dir_path [] st = st"
| "copy_loop env target_dir_path ((filepath, new_name) # rest) (success_paths, fail_paths, tr) =
     (let dst = joinpath target_dir_path new_name
      in case os_copy2 env tr filepath dst of
           Inr p \<Rightarrow>
             copy_loop env target_dir_path rest
               (success_paths @ [p], fail_paths, tr @ [EvCopy2 filepath dst])
         | Inl e \<Rightarrow>
             copy_loop env target_dir_path rest
               (success_paths, fail_paths @ [filepath],
                tr @ [EvCopy2 filepath dst, EvLog ERROR (ExnMsg e)]))"

text \<open>
  The ownership loop stands inside one \<^verbatim>\<open>try\<close>: the first \<^verbatim>\<open>os.chown\<close> that raises
  ends it, and the exception is handed to the handler.
\<close>

fun chown_loop :: "env \<Rightarrow> path list \<Rightarrow> event list \<Rightarrow> exn option \<times> event list" where
  "chown_loop env [] tr = (None, tr)"
| "chown_loop env (path # rest) tr =
     (case os_chown env tr path 1000 1000 of
        None \<Rightarrow> chown_loop env rest (tr @ [EvChown path 1000 1000])
      | Some e \<Rightarrow> (Some e, tr @ [EvChown path 1000 1000]))"

definition copy_files ::
  "env \<Rightarrow> event list \<Rightarrow> (path \<times> string) list \<Rightarrow> path \<Rightarrow>
   (path list \<times> path list) \<times> event list" where
  "copy_files env tr target_filenames target_dir_path =
     (case copy_loop env target_dir_path target_filenames ([], [], tr) of
        (success_paths, fail_paths, tr1) \<Rightarrow>
          (let tr2 = tr1 @
                 [EvLog INFO (CopiedSummary (length success_paths) (length target_filenames))] @
                 map (\<lambda>path. EvLog INFO (PathMsg path)) success_paths;
               tr3 = (if fail_paths \<noteq> []
                      then tr2 @
                        [EvLog ERROR (FailedSummary (length fail_paths) (length target_filenames))] @
                        map (\<lambda>path. EvLog ERROR (PathMsg path)) fail_paths
                      else tr2)
           in case chown_loop env success_paths tr3 of
                (None, tr4) \<Rightarrow> ((success_paths, fail_paths), tr4)
              | (Some e, tr4) \<Rightarrow>
                  ((success_paths, fail_paths),
                   tr4 @ [EvLog WARNING (ExnMsg (add_note e CouldNotSetOwnership))])))"

subsection \<open>The Wiper: \<^verbatim>\<open>wipe_disk\<close>\<close>

text \<open>
  The removal loop over \<^verbatim>\<open>disk_path.glob("*")\<close>. An exception of \<^verbatim>\<open>shutil.rmtree\<close>
  or \<^verbatim>\<open>os.remove\<close> is not caught.
\<close>

fun remove_loop :: "env \<Rightarrow> path list \<Rightarrow> event list \<Rightarrow> (exn + unit) \<times> event list" where
  "remove_loop env [] tr = (Inr (), tr)"
| "remove_loop env (path # rest) tr =
     (let tr1 = tr @ [EvIsDir path]
      in if os_is_dir env tr path
         then (case os_rmtree env tr1 path of
                 Some e \<Rightarrow> (Inl e, tr1 @ [EvRmtree path])
               | None \<Rightarrow>
                   remove_loop env rest (tr1 @ [EvRmtree path, EvLog INFO (Removed path)]))
         else (case os_remove env tr1 path of
                 Some e \<Rightarrow> (Inl e, tr1 @ [EvRemove path])
               | None \<Rightarrow>
                   remove_loop env rest (tr1 @ [EvRemove path, EvLog INFO (Removed path)])))"

definition wipe_disk :: "env \<Rightarrow> event list \<Rightarrow> path \<Rightarrow> (exn + unit) \<times> event list" where
  "wipe_disk env tr disk_path =
     (let tr1 = tr @ [EvLog WARNING (WillBeRemoved disk_path), EvLog WARNING DirContentsHeader]
      in case os_scandir env tr1 disk_path of
           Inl e \<Rightarrow> (Inl e, tr1 @ [EvScandir disk_path])
         | Inr names \<Rightarrow>
             (let tr2 = tr1 @ [EvScandir disk_path, EvLog WARNING (DirContents names)]
              in case os_input env tr2 of
                   Inl e \<Rightarrow> (Inl e, tr2 @ [EvInput])
                 | Inr answer \<Rightarrow>
                     (let tr3 = tr2 @ [EvInput]
                      in if lower answer = ''yes''
                         then remove_loop env
                                (map (joinpath disk_path) (glob_names env tr3 disk_path))
                                (tr3 @ [EvScandir disk_path])
                         else (Inr (), tr3 @ [EvLog INFO NothingRemoved]))))"

subsection \<open>The script body\<close>

record args =
  source :: path
  target :: path
  wipe :: bool

text \<open>
  The body under \<^verbatim>\<open>if __name__ == "__main__"\<close>, after \<^verbatim>\<open>parse_args\<close>. The
  \<^verbatim>\<open>PermissionError\<close> of the privilege check is an \<^verbatim>\<open>OSError\<close>.
\<close>

definition main :: "env \<Rightarrow> event list \<Rightarrow> args \<Rightarrow> (exn + unit) \<times> event list" where
  "main env tr a =
     (if wipe a \<and> os_getuid env \<noteq> 0
      then (Inl (Exn OSError
                  (''To wipe the floppy disk the script has to be run with root privileges. '' @
                   ''Try running again with `sudo`.'') []), tr)
      else case find_pictures env tr (source a) of
             (Inl e, tr1) \<Rightarrow> (Inl e, tr1)
           | (Inr pictures_paths, tr1) \<Rightarrow>
               (case create_target_filenames env tr1 (target a) pictures_paths of
                  (Inl e, tr2) \<Rightarrow> (Inl e, tr2)
                | (Inr target_filenames, tr2) \<Rightarrow>
                    (case copy_files env tr2 target_filenames (target a) of
                       ((success_paths, fail_paths), tr3) \<Rightarrow>
                         (if wipe a
                          then (if fail_paths \<noteq> []
                                then (Inr (), tr3 @ [EvLog WARNING AbortingWipe])
                                else wipe_disk env tr3 (source a))
                          else (Inr (), tr3)))))"

subsection \<open>Environments for the examples\<close>

text \<open>
  An environment in which every call succeeds: every directory lists \<open>dir\<close> of its path,
  every file was last modified at noon on 1 January 2020 local time, a copy returns its
  destination, the user answers \<^verbatim>\<open>no\<close>, and the process runs as root.
\<close>

definition noon :: datetime where
  "noon = \<lparr>year = 2020, month = 1, day = 1, hour = 12, minute = 0, second = 0\<rparr>"

definition quiet_env :: "(path \<Rightarrow> string list) \<Rightarrow> env" where
  "quiet_env dir =
     \<lparr>os_scandir = (\<lambda>tr p. Inr (dir p)),
      os_stat_mtime = (\<lambda>tr p. Inr 1577876400),
      os_fromtimestamp = (\<lambda>t. Inr noon),
      os_copy2 = (\<lambda>tr src dst. Inr dst),
      os_chown = (\<lambda>tr p uid gid. None),
      os_input = (\<lambda>tr. Inr ''no''),
      os_is_dir = (\<lambda>tr p. False),
      os_rmtree = (\<lambda>tr p. None),
      os_remove = (\<lambda>tr p. None),
      os_getuid = 0\<rparr>"

text \<open>The same environment with every file last modified at the local time \<open>dt\<close>.\<close>

definition env_at :: "datetime \<Rightarrow> (path \<Rightarrow> string list) \<Rightarrow> env" where
  "env_at dt dir = (quiet_env dir)\<lparr>os_fromtimestamp := (\<lambda>t. Inr dt)\<rparr>"

text \<open>
  The spec's numbering of candidates that share a second: the plain name for the first,
  the suffix \<open>_k\<close> for the one that has \<open>k\<close> candidates before it.
\<close>

definition numbered_name :: "string \<Rightarrow> string \<Rightarrow> nat \<Rightarrow> string" where
  "numbered_name timestamp extension k =
     (if k = 0 then timestamp @ extension else suffixed_name timestamp k extension)"

subsection \<open>Reading the trace and the outcome lists\<close>

text \<open>The calls of one kind in a trace, and the call the copy pass makes for a pair.\<close>

fun is_copy_call :: "event \<Rightarrow> bool" where
  "is_copy_call (EvCopy2 src dst) = True"
| "is_copy_call ev = False"

fun is_chown_call :: "event \<Rightarrow> bool" where
  "is_chown_call (EvChown p uid gid) = True"
| "is_chown_call ev = False"

fun is_warning :: "event \<Rightarrow> bool" where
  "is_warning (EvLog WARNING msg) = True"
| "is_warning ev = False"

definition copy_call :: "path \<Rightarrow> path \<times> string \<Rightarrow> event" where
  "copy_call target_dir_path = (\<lambda>(filepath, new_name). EvCopy2 filepath (joinpath target_dir_path new_name))"

text \<open>
  The two lists in terms of the outcome of each copy, in the order of the mapping: the
  success list holds the path each successful copy returned, the failure list the
  candidate of each copy that raised.
\<close>

definition copied :: "(exn + path) list \<Rightarrow> path list" where
  "copied outcomes = map projr (filter (\<lambda>out. \<not> isl out) outcomes)"

definition failed :: "path list \<Rightarrow> (exn + path) list \<Rightarrow> path list" where
  "failed candidates outcomes = map fst (filter (\<lambda>p. isl (snd p)) (zip candidates outcomes))"

text \<open>
  What \<^verbatim>\<open>shutil.copy2\<close> answered for each pair of the mapping, in order: the \<open>k\<close>-th
  answer is taken at the trace the copy pass had reached after the first \<open>k\<close> pairs.
\<close>

definition copy_outcomes ::
  "env \<Rightarrow> event list \<Rightarrow> (path \<times> string) list \<Rightarrow> path \<Rightarrow> (exn + path) list" where
  "copy_outcomes env tr target_filenames target_dir_path =
     map (\<lambda>k. os_copy2 env
                (snd (snd (copy_loop env target_dir_path (take k target_filenames) ([], [], tr))))
                (fst (target_filenames ! k))
                (joinpath target_dir_path (snd (target_filenames ! k))))
       [0..<length target_filenames]"

text \<open>
  The summary records \<^verbatim>\<open>copy_files\<close> logs after the copy pass, and the call of the
  ownership loop for a path.
\<close>

definition summary_log :: "nat \<Rightarrow> path list \<Rightarrow> path list \<Rightarrow> event list" where
  "summary_log n success_paths fail_paths =
     [EvLog INFO (CopiedSummary (length success_paths) n)] @
     map (\<lambda>path. EvLog INFO (PathMsg path)) success_paths @
     (if fail_paths \<noteq> []
      then [EvLog ERROR (FailedSummary (length fail_paths) n)] @
           map (\<lambda>path. EvLog ERROR (PathMsg path)) fail_paths
      else [])"

definition chown_call :: "path \<Rightarrow> event" where
  "chown_call path = EvChown path 1000 1000"

text \<open>The trace at line 115, where the ownership loop begins.\<close>

definition chown_start ::
  "env \<Rightarrow> event list \<Rightarrow> (path \<times> string) list \<Rightarrow> path \<Rightarrow> event list" where
  "chown_start env tr target_filenames target_dir_path =
     (case copy_loop env target_dir_path target_filenames ([], [], tr) of
        (success_paths, fail_paths, tr1) \<Rightarrow>
          tr1 @ summary_log (length target_filenames) success_paths fail_paths)"

text \<open>
  Two environments with a failure: the copy of one file raises, and the \<^verbatim>\<open>chown\<close> of
  one file raises.
\<close>

definition copy_fails_env :: "(path \<Rightarrow> string list) \<Rightarrow> path \<Rightarrow> env" where
  "copy_fails_env dir bad =
     (quiet_env dir)\<lparr>os_copy2 :=
        (\<lambda>tr src dst. if src = bad then Inl (Exn OSError ''[Errno 28] No space left on device'' []) else Inr dst)\<rparr>"

definition chown_fails_env :: "path \<Rightarrow> env" where
  "chown_fails_env bad =
     (quiet_env (\<lambda>p. []))\<lparr>os_chown :=
        (\<lambda>tr p uid gid.
           if p = bad then Some (Exn OSError ''[Errno 1] Operation not permitted'' [])
           else None)\<rparr>"

subsection \<open>The events of the wipe step\<close>

text \<open>
  \<open>is_removal\<close> holds of the two calls that delete an entry. \<open>is_wipe_event\<close> holds of
  every event only \<^verbatim>\<open>wipe_disk\<close> produces: its log records, the prompt, and the calls of
  its loop. \<open>wipe_prompt_trace\<close> is the trace at the moment \<^verbatim>\<open>input\<close> is called.
\<close>

fun is_removal :: "event \<Rightarrow> bool" where
  "is_removal (EvRmtree p) = True"
| "is_removal (EvRemove p) = True"
| "is_removal ev = False"

fun is_wipe_event :: "event \<Rightarrow> bool" where
  "is_wipe_event (EvLog lvl (WillBeRemoved p)) = True"
| "is_wipe_event (EvLog lvl DirContentsHeader) = True"
| "is_wipe_event (EvLog lvl (DirContents names)) = True"
| "is_wipe_event (EvLog lvl (Removed p)) = True"
| "is_wipe_event (EvLog lvl NothingRemoved) = True"
| "is_wipe_event EvInput = True"
| "is_wipe_event (EvIsDir p) = True"
| "is_wipe_event (EvRmtree p) = True"
| "is_wipe_event (EvRemove p) = True"
| "is_wipe_event ev = False"

definition wipe_prompt_trace :: "event list \<Rightarrow> path \<Rightarrow> string list \<Rightarrow> event list" where
  "wipe_prompt_trace tr disk_path names =
     tr @ [EvLog WARNING (WillBeRemoved disk_path), EvLog WARNING DirContentsHeader,
           EvScandir disk_path, EvLog WARNING (DirContents names)]"

text \<open>
  Three more environments: the user types \<^verbatim>\<open>YES\<close>; \<^verbatim>\<open>path.stat()\<close> raises an
  \<^verbatim>\<open>OSError\<close> (the file is a dangling symbolic link, or was removed after the scan);
  \<^verbatim>\<open>path.stat().st_mtime\<close> raises an \<^verbatim>\<open>AttributeError\<close>.
\<close>

definition yes_env :: "(path \<Rightarrow> string list) \<Rightarrow> env" where
  "yes_env dir = (quiet_env dir)\<lparr>os_input := (\<lambda>tr. Inr ''YES'')\<rparr>"

definition stat_fails_env :: "path \<Rightarrow> env" where
  "stat_fails_env bad =
     (quiet_env (\<lambda>p. []))\<lparr>os_stat_mtime :=
        (\<lambda>tr p.
           if p = bad then Inl (Exn OSError ''[Errno 2] No such file or directory'' [])
           else Inr 1577876400)\<rparr>"

definition no_mtime_env :: env where
  "no_mtime_env =
     (quiet_env (\<lambda>p. []))\<lparr>os_stat_mtime :=
        (\<lambda>tr p. Inl (Exn AttributeError ''object has no attribute st_mtime'' []))\<rparr>"

section \<open>Properties\<close>

subsection \<open>The suffix search\<close>

lemma suffix_search_free:
  "suffix_search vals tdf ts ext i nf \<notin> set vals \<union> set tdf"
proof (induction vals tdf ts ext i nf rule: suffix_search.induct)
  case (1 vals tdf ts ext i nf)
  show ?case
  proof (cases "nf \<in> set vals \<or> nf \<in> set tdf")
    case True
    with "1.IH" show ?thesis
      by (subst suffix_search.simps) simp
  next
    case False
    then show ?thesis
      by (subst suffix_search.simps) simp
  qed
qed

lemma suffix_search_unchanged:
  "nf \<notin> set vals \<union> set tdf \<Longrightarrow> suffix_search vals tdf ts ext i nf = nf"
  by (subst suffix_search.simps) simp

lemma suffix_search_least:
  "nf \<in> set vals \<union> set tdf \<Longrightarrow>
   \<exists>k>i. suffix_search vals tdf ts ext i nf = suffixed_name ts k ext \<and>
     suffixed_name ts k ext \<notin> set vals \<union> set tdf \<and>
     (\<forall>j. i < j \<and> j < k \<longrightarrow> suffixed_name ts j ext \<in> set vals \<union> set tdf)"
proof (induction vals tdf ts ext i nf rule: suffix_search.induct)
  case (1 vals tdf ts ext i nf)
  let ?T = "set vals \<union> set tdf"
  let ?next = "suffixed_name ts (i + 1) ext"
  from "1.prems" have unfold:
    "suffix_search vals tdf ts ext i nf = suffix_search vals tdf ts ext (i + 1) ?next"
    by (subst suffix_search.simps) simp
  show ?case
  proof (cases "?next \<in> ?T")
    case False
    then have "suffix_search vals tdf ts ext (i + 1) ?next = ?next"
      by (rule suffix_search_unchanged)
    with unfold False show ?thesis
      by (intro exI [of _ "i + 1"]) auto
  next
    case True
    from "1.prems" have "nf \<in> set vals \<or> nf \<in> set tdf" by simp
    from "1.IH" [OF this True] obtain k where k:
      "i + 1 < k" "suffix_search vals tdf ts ext (i + 1) ?next = suffixed_name ts k ext"
      "suffixed_name ts k ext \<notin> ?T"
      "\<forall>j. i + 1 < j \<and> j < k \<longrightarrow> suffixed_name ts j ext \<in> ?T"
      by blast
    have "\<forall>j. i < j \<and> j < k \<longrightarrow> suffixed_name ts j ext \<in> ?T"
    proof (intro allI impI)
      fix j assume "i < j \<and> j < k"
      then consider "j = i + 1" | "i + 1 < j \<and> j < k" by atomize_elim arith
      then show "suffixed_name ts j ext \<in> ?T"
        using True k(4) by cases auto
    qed
    with k unfold show ?thesis
      by (intro exI [of _ k]) auto
  qed
qed

lemma search_measure_bound:
  "search_measure (vals, tdf, ts, ext, i, nf) \<le> length vals + length tdf + 1"
proof -
  let ?f = "\<lambda>j. suffixed_name ts j ext"
  let ?T = "set vals \<union> set tdf"
  have inj: "inj ?f"
    by (rule injI) (rule suffixed_name_inj)
  have "taken_above vals tdf ts ext i \<subseteq> ?f -` (?T \<inter> range ?f)"
    by (auto simp: taken_above_def)
  moreover have fin: "finite (?f -` (?T \<inter> range ?f))"
    using inj by (intro finite_vimageI) simp_all
  ultimately have "card (taken_above vals tdf ts ext i) \<le> card (?f -` (?T \<inter> range ?f))"
    by (intro card_mono)
  also have "\<dots> = card (?T \<inter> range ?f)"
    using inj by (intro card_vimage_inj) simp_all
  also have "\<dots> \<le> card ?T"
    by (intro card_mono) simp_all
  also have "\<dots> \<le> card (set vals) + card (set tdf)"
    by (rule card_Un_le)
  also have "\<dots> \<le> length vals + length tdf"
    by (intro add_mono card_length)
  finally show ?thesis
    by (simp add: search_measure_def)
qed

lemma suffix_search_turns:
  "\<exists>k\<le>search_measure (vals, tdf, ts, ext, i, nf).
     suffix_search vals tdf ts ext i nf = (if k = 0 then nf else suffixed_name ts (i + k) ext)"
proof (induction vals tdf ts ext i nf rule: suffix_search.induct)
  case (1 vals tdf ts ext i nf)
  show ?case
  proof (cases "nf \<in> set vals \<or> nf \<in> set tdf")
    case False
    then have "suffix_search vals tdf ts ext i nf = nf"
      by (subst suffix_search.simps) simp
    then show ?thesis
      by (intro exI [of _ 0]) simp
  next
    case True
    let ?next = "suffixed_name ts (i + 1) ext"
    from True have unfold:
      "suffix_search vals tdf ts ext i nf = suffix_search vals tdf ts ext (i + 1) ?next"
      by (subst suffix_search.simps) simp
    from True have m: "search_measure (vals, tdf, ts, ext, i, nf) =
        search_measure (vals, tdf, ts, ext, i + 1, ?next) + 1"
      by (simp add: search_measure_def card_taken_above_step [of vals tdf ts ext i])
    from "1.IH" [OF True] obtain k where
      k: "k \<le> search_measure (vals, tdf, ts, ext, i + 1, ?next)"
        "suffix_search vals tdf ts ext (i + 1) ?next =
           (if k = 0 then ?next else suffixed_name ts (i + 1 + k) ext)"
      by blast
    show ?thesis
    proof (intro exI [of _ "k + 1"] conjI)
      show "k + 1 \<le> search_measure (vals, tdf, ts, ext, i, nf)"
        using k(1) m by simp
      show "suffix_search vals tdf ts ext i nf =
          (if k + 1 = 0 then nf else suffixed_name ts (i + (k + 1)) ext)"
        using unfold k(2) by (simp add: add.assoc add.commute)
    qed
  qed
qed

text \<open>
  Claim C9. For all finite lists of names in the target directory and of names already
  assigned, the suffix search of the Namer terminates: every argument lies in the domain
  of the loop, the loop makes at most \<open>length vals + length target_dir_files + 1\<close>
  turns, and the name it returns is outside both lists. The \<^verbatim>\<open>for\<close> loop around it is
  a structural recursion over the list of candidates, so the Namer is total.
\<close>

theorem suffix_search_terminates:
  "suffix_search_dom (vals, tdf, ts, ext, i, nf) \<and>
   (\<exists>k\<le>length vals + length tdf + 1.
      suffix_search vals tdf ts ext i nf = (if k = 0 then nf else suffixed_name ts (i + k) ext)) \<and>
   suffix_search vals tdf ts ext i nf \<notin> set vals \<union> set tdf"
proof (intro conjI)
  show "suffix_search_dom (vals, tdf, ts, ext, i, nf)"
    by (rule suffix_search_dom_all)
  from suffix_search_turns [of vals tdf ts ext i nf] search_measure_bound [of vals tdf ts ext i nf]
  show "\<exists>k\<le>length vals + length tdf + 1.
      suffix_search vals tdf ts ext i nf = (if k = 0 then nf else suffixed_name ts (i + k) ext)"
    by (meson le_trans)
  show "suffix_search vals tdf ts ext i nf \<notin> set vals \<union> set tdf"
    by (rule suffix_search_free)
qed


theorem suffix_search_terminates_witness:
  "suffix_search_dom ([''t.jpg''], [''t_1.jpg''], ''t'', ''.jpg'', 0, ''t.jpg'') \<and>
   suffix_search [''t.jpg''] [''t_1.jpg''] ''t'' ''.jpg'' 0 ''t.jpg'' = ''t_2.jpg''"
  using suffix_search_terminates [of "[''t.jpg'']" "[''t_1.jpg'']" "''t''" "''.jpg''" 0 "''t.jpg''"]
  by (simp add: suffix_search.simps suffixed_name_def str_nat.simps digit_char_def)

subsection \<open>The Namer\<close>

lemmas namer_eval =
  create_target_filenames_def quiet_env_def extract_timestamp_def strftime_def two_digits_def
  digit_char_def noon_def path_suffix_def path_name_def rfind_def suffix_search.simps
  suffixed_name_def str_nat.simps Let_def

lemma loop_append:
  "create_target_filenames_loop env tdf (ps @ qs) nn tr =
     (case create_target_filenames_loop env tdf ps nn tr of
        (Inl e, t) \<Rightarrow> (Inl e, t)
      | (Inr m0, t) \<Rightarrow> create_target_filenames_loop env tdf qs m0 t)"
  by (induction ps arbitrary: nn tr) (simp_all add: Let_def split: sum.splits)

lemma loop_keeps_lookup:
  "create_target_filenames_loop env tdf qs nn tr = (Inr m, tr') \<Longrightarrow> c \<notin> set qs \<Longrightarrow>
   map_of m c = map_of nn c"
proof (induction qs arbitrary: nn tr)
  case Nil
  then show ?case by simp
next
  case (Cons q qs)
  from Cons.prems obtain ts where ts: "extract_timestamp env tr q = Inr ts"
    by (auto split: sum.splits)
  let ?name = "suffix_search (map snd nn) tdf ts (path_suffix q) 0 (ts @ path_suffix q)"
  from Cons.prems ts have
    "create_target_filenames_loop env tdf qs (AList.update q ?name nn) (tr @ [EvStat q]) = (Inr m, tr')"
    by (simp add: Let_def)
  from Cons.IH [OF this] Cons.prems(2) show ?case
    by (simp add: update_conv')
qed

lemma extract_timestamp_Inr:
  "extract_timestamp env tr p = Inr ts \<Longrightarrow>
   \<exists>file_mtime dt. os_stat_mtime env tr p = Inr file_mtime \<and>
     os_fromtimestamp env file_mtime = Inr dt \<and> ts = strftime dt"
  by (auto simp: extract_timestamp_def split: sum.splits if_splits)

lemma least_free_name:
  "let taken = set tdf \<union> set vals; found = suffix_search vals tdf ts ext 0 (ts @ ext)
   in if ts @ ext \<notin> taken then found = ts @ ext
      else \<exists>i>0. found = suffixed_name ts i ext \<and> suffixed_name ts i ext \<notin> taken \<and>
             (\<forall>j. 0 < j \<and> j < i \<longrightarrow> suffixed_name ts j ext \<in> taken)"
proof (cases "ts @ ext \<in> set vals \<union> set tdf")
  case True
  from suffix_search_least [OF this, where ts = ts and ext = ext and i = 0] True show ?thesis
    by (simp add: Let_def Un_commute)
next
  case False
  from suffix_search_unchanged [OF this, where ts = ts and ext = ext and i = 0] False show ?thesis
    by (simp add: Let_def Un_commute)
qed

text \<open>
  Claim C2. Take a run of the Namer that succeeds, and a candidate \<open>filepath\<close> that does
  not occur again later in the list. Let \<open>dt\<close> be the local time of its modification time,
  \<open>timestamp\<close> the thirteen characters YYMMDD_HHMMSS of \<open>dt\<close> (two decimal digits each
  for year, month and day, an underscore, two digits each for hour, minute and second),
  and \<open>taken\<close> the names in the target directory together with the names assigned to the
  candidates before it. The name the mapping holds for \<open>filepath\<close> is
  \<open>timestamp @ extension\<close> when that is not taken, and otherwise \<open>timestamp_i extension\<close>
  for the least \<open>i > 0\<close> whose name is not taken.
\<close>

theorem namer_assigns_least_free_name:
  assumes run: "create_target_filenames env tr target_dir_path (earlier @ filepath # later) =
      (Inr new_names, tr')"
    and last_one: "filepath \<notin> set later"
  shows "\<exists>target_dir_files assigned tr1 file_mtime dt.
      os_scandir env tr target_dir_path = Inr target_dir_files \<and>
      create_target_filenames env tr target_dir_path earlier = (Inr assigned, tr1) \<and>
      os_stat_mtime env tr1 filepath = Inr file_mtime \<and>
      os_fromtimestamp env file_mtime = Inr dt \<and>
      (let taken = set target_dir_files \<union> set (map snd assigned);
           timestamp =
             [digit_char (year dt div 10 mod 10), digit_char (year dt mod 10),
              digit_char (month dt div 10 mod 10), digit_char (month dt mod 10),
              digit_char (day dt div 10 mod 10), digit_char (day dt mod 10),
              CHR ''_'',
              digit_char (hour dt div 10 mod 10), digit_char (hour dt mod 10),
              digit_char (minute dt div 10 mod 10), digit_char (minute dt mod 10),
              digit_char (second dt div 10 mod 10), digit_char (second dt mod 10)];
           extension = path_suffix filepath
       in if timestamp @ extension \<notin> taken
          then map_of new_names filepath = Some (timestamp @ extension)
          else \<exists>i>0. map_of new_names filepath = Some (suffixed_name timestamp i extension) \<and>
                 suffixed_name timestamp i extension \<notin> taken \<and>
                 (\<forall>j. 0 < j \<and> j < i \<longrightarrow> suffixed_name timestamp j extension \<in> taken))"
proof -
  have fmt:
    "[digit_char (year dt div 10 mod 10), digit_char (year dt mod 10),
      digit_char (month dt div 10 mod 10), digit_char (month dt mod 10),
      digit_char (day dt div 10 mod 10), digit_char (day dt mod 10),
      CHR ''_'',
      digit_char (hour dt div 10 mod 10), digit_char (hour dt mod 10),
      digit_char (minute dt div 10 mod 10), digit_char (minute dt mod 10),
      digit_char (second dt div 10 mod 10), digit_char (second dt mod 10)] =
     strftime dt" for dt
    by (simp add: strftime_def two_digits_def)
  from run obtain tdf where tdf: "os_scandir env tr target_dir_path = Inr tdf"
    by (auto simp: create_target_filenames_def split: sum.splits)
  let ?tr0 = "tr @ [EvScandir target_dir_path]"
  from run tdf have whole:
    "create_target_filenames_loop env tdf (earlier @ filepath # later) [] ?tr0 = (Inr new_names, tr')"
    by (simp add: create_target_filenames_def)
  then obtain assigned tr1 where
    before: "create_target_filenames_loop env tdf earlier [] ?tr0 = (Inr assigned, tr1)" and
    from_here: "create_target_filenames_loop env tdf (filepath # later) assigned tr1 = (Inr new_names, tr')"
    by (auto simp: loop_append split: prod.splits sum.splits)
  from from_here obtain ts0 where "extract_timestamp env tr1 filepath = Inr ts0"
    by (auto split: sum.splits)
  then obtain file_mtime dt where
    stat: "os_stat_mtime env tr1 filepath = Inr file_mtime" and
    local: "os_fromtimestamp env file_mtime = Inr dt" and
    ts: "extract_timestamp env tr1 filepath = Inr (strftime dt)"
    using extract_timestamp_Inr by blast
  let ?ts = "strftime dt"
  let ?ext = "path_suffix filepath"
  let ?found = "suffix_search (map snd assigned) tdf ?ts ?ext 0 (?ts @ ?ext)"
  from from_here ts have
    "create_target_filenames_loop env tdf later (AList.update filepath ?found assigned)
       (tr1 @ [EvStat filepath]) = (Inr new_names, tr')"
    by (simp add: Let_def)
  from loop_keeps_lookup [OF this last_one] have lookup: "map_of new_names filepath = Some ?found"
    by (simp add: update_conv')
  from before tdf have earlier_run:
    "create_target_filenames env tr target_dir_path earlier = (Inr assigned, tr1)"
    by (simp add: create_target_filenames_def)
  from least_free_name [where ts = "?ts" and ext = "?ext" and tdf = tdf and vals = "map snd assigned"] lookup
  have "let taken = set tdf \<union> set (map snd assigned);
           timestamp = strftime dt;
           extension = path_suffix filepath
       in if timestamp @ extension \<notin> taken
          then map_of new_names filepath = Some (timestamp @ extension)
          else \<exists>i>0. map_of new_names filepath = Some (suffixed_name timestamp i extension) \<and>
                 suffixed_name timestamp i extension \<notin> taken \<and>
                 (\<forall>j. 0 < j \<and> j < i \<longrightarrow> suffixed_name timestamp j extension \<in> taken)"
    by (auto simp: Let_def split: if_splits)
  with tdf earlier_run stat local show ?thesis
    unfolding fmt by blast
qed

text \<open>
  Two examples. The one of the spec: the target directory holds \<^verbatim>\<open>200101_120000.jpg\<close>,
  and a candidate with that time stamp and extension gets \<^verbatim>\<open>200101_120000_1.jpg\<close>. And a
  file last modified on 27 September 2018 at 14:35:06, with the plain name and the first
  suffix taken.
\<close>

theorem namer_assigns_least_free_name_witness:
  "create_target_filenames (quiet_env (\<lambda>p. [''200101_120000.jpg''])) [] [''target'']
     ([] @ [''floppy'', ''a.jpg''] # []) =
     (Inr [([''floppy'', ''a.jpg''], ''200101_120000_1.jpg'')],
      [EvScandir [''target''], EvStat [''floppy'', ''a.jpg'']]) \<and>
   [''floppy'', ''a.jpg''] \<notin> set [] \<and>
   map_of [([''floppy'', ''a.jpg''], ''200101_120000_1.jpg'')] [''floppy'', ''a.jpg''] =
     Some ''200101_120000_1.jpg'' \<and>
   create_target_filenames
     (env_at \<lparr>year = 2018, month = 9, day = 27, hour = 14, minute = 35, second = 6\<rparr>
        (\<lambda>p. [''180927_143506.jpg'', ''180927_143506_1.jpg''])) [] [''target'']
     ([] @ [''floppy'', ''MVC-001F.JPG''] # []) =
     (Inr [([''floppy'', ''MVC-001F.JPG''], ''180927_143506.JPG'')],
      [EvScandir [''target''], EvStat [''floppy'', ''MVC-001F.JPG'']]) \<and>
   create_target_filenames
     (env_at \<lparr>year = 2018, month = 9, day = 27, hour = 14, minute = 35, second = 6\<rparr>
        (\<lambda>p. [''180927_143506.jpg'', ''180927_143506_1.jpg''])) [] [''target'']
     ([] @ [''floppy'', ''b.jpg''] # []) =
     (Inr [([''floppy'', ''b.jpg''], ''180927_143506_2.jpg'')],
      [EvScandir [''target''], EvStat [''floppy'', ''b.jpg'']])"
proof -
  let ?env = "env_at \<lparr>year = 2018, month = 9, day = 27, hour = 14, minute = 35, second = 6\<rparr>
        (\<lambda>p. [''180927_143506.jpg'', ''180927_143506_1.jpg''])"
  have run: "create_target_filenames (quiet_env (\<lambda>p. [''200101_120000.jpg''])) [] [''target'']
     ([] @ [''floppy'', ''a.jpg''] # []) =
     (Inr [([''floppy'', ''a.jpg''], ''200101_120000_1.jpg'')],
      [EvScandir [''target''], EvStat [''floppy'', ''a.jpg'']])"
    by (simp add: namer_eval)
  have upper: "create_target_filenames ?env [] [''target'']
     ([] @ [''floppy'', ''MVC-001F.JPG''] # []) =
     (Inr [([''floppy'', ''MVC-001F.JPG''], ''180927_143506.JPG'')],
      [EvScandir [''target''], EvStat [''floppy'', ''MVC-001F.JPG'']])"
    by (simp add: namer_eval env_at_def)
  have lower: "create_target_filenames ?env [] [''target'']
     ([] @ [''floppy'', ''b.jpg''] # []) =
     (Inr [([''floppy'', ''b.jpg''], ''180927_143506_2.jpg'')],
      [EvScandir [''target''], EvStat [''floppy'', ''b.jpg'']])"
    by (simp add: namer_eval env_at_def)
  have last_one: "p \<notin> set []" for p :: path
    by simp
  from namer_assigns_least_free_name [OF run last_one]
    namer_assigns_least_free_name [OF upper last_one]
    namer_assigns_least_free_name [OF lower last_one] run upper lower
  show ?thesis
    by simp
qed

lemma numbered_name_inj: "numbered_name ts ext j = numbered_name ts ext k \<Longrightarrow> j = k"
proof -
  have "length (ts @ ext) \<noteq> length (suffixed_name ts i ext)" for i
    by (simp add: suffixed_name_def)
  then have "ts @ ext \<noteq> suffixed_name ts i ext" and "suffixed_name ts i ext \<noteq> ts @ ext" for i
    by metis+
  moreover assume "numbered_name ts ext j = numbered_name ts ext k"
  ultimately show ?thesis
    by (auto simp: numbered_name_def dest: suffixed_name_inj split: if_splits)
qed

lemma search_numbered:
  assumes free: "\<And>k. k \<le> n \<Longrightarrow> numbered_name ts ext k \<notin> set tdf"
  shows "suffix_search (map (numbered_name ts ext) [0..<n]) tdf ts ext 0 (ts @ ext) =
    numbered_name ts ext n"
proof (cases "n = 0")
  case True
  with free [of 0] show ?thesis
    by (simp add: suffix_search_unchanged numbered_name_def)
next
  case False
  let ?N = "numbered_name ts ext"
  let ?vals = "map ?N [0..<n]"
  from False have "?N 0 \<in> set ?vals" by auto
  then have "ts @ ext \<in> set ?vals \<union> set tdf"
    by (simp add: numbered_name_def)
  from suffix_search_least [OF this, where ts = ts and ext = ext and i = 0] obtain k where k:
    "0 < k" "suffix_search ?vals tdf ts ext 0 (ts @ ext) = suffixed_name ts k ext"
    "suffixed_name ts k ext \<notin> set ?vals \<union> set tdf"
    "\<forall>j. 0 < j \<and> j < k \<longrightarrow> suffixed_name ts j ext \<in> set ?vals \<union> set tdf"
    by blast
  have "\<not> k < n"
  proof
    assume "k < n"
    then have "?N k \<in> set ?vals" by auto
    with k(1,3) show False by (simp add: numbered_name_def)
  qed
  moreover have "\<not> n < k"
  proof
    assume "n < k"
    with False k(4) have "suffixed_name ts n ext \<in> set ?vals \<union> set tdf" by simp
    with False have "?N n \<in> set ?vals \<union> set tdf" by (simp add: numbered_name_def)
    with free [of n] have "?N n \<in> set ?vals" by simp
    then obtain j where "j < n" "?N n = ?N j" by auto
    with numbered_name_inj [of ts ext n j] show False by simp
  qed
  ultimately have "k = n" by simp
  with k(2) False show ?thesis by (simp add: numbered_name_def)
qed

lemma update_new_key: "k \<notin> fst ` set al \<Longrightarrow> AList.update k v al = al @ [(k, v)]"
  by (induction al) auto

lemma loop_numbered:
  assumes same_ts: "\<And>t q. q \<in> set qs \<Longrightarrow> extract_timestamp env t q = Inr ts"
    and same_ext: "\<And>q. q \<in> set qs \<Longrightarrow> path_suffix q = ext"
    and dist: "distinct (ps @ qs)"
    and free: "\<And>k. k < length ps + length qs \<Longrightarrow> numbered_name ts ext k \<notin> set tdf"
  shows "\<exists>tr'. create_target_filenames_loop env tdf qs
        (zip ps (map (numbered_name ts ext) [0..<length ps])) tr =
      (Inr (zip (ps @ qs) (map (numbered_name ts ext) [0..<length ps + length qs])), tr')"
  using assms
proof (induction qs arbitrary: ps tr)
  case Nil
  then show ?case by simp
next
  case (Cons q qs)
  let ?N = "numbered_name ts ext"
  let ?nn = "zip ps (map ?N [0..<length ps])"
  have vals: "map snd ?nn = map ?N [0..<length ps]"
    by (simp add: map_snd_zip)
  have "suffix_search (map ?N [0..<length ps]) tdf ts ext 0 (ts @ ext) = ?N (length ps)"
    using Cons.prems(4) by (intro search_numbered) simp
  with vals have found:
    "suffix_search (map snd ?nn) tdf ts ext 0 (ts @ ext) = ?N (length ps)"
    by simp
  from Cons.prems(3) have "q \<notin> fst ` set ?nn"
    by (auto dest: set_zip_leftD)
  then have upd: "AList.update q (?N (length ps)) ?nn =
      zip (ps @ [q]) (map ?N [0..<length (ps @ [q])])"
    by (simp add: update_new_key)
  have "\<exists>tr'. create_target_filenames_loop env tdf qs
        (zip (ps @ [q]) (map ?N [0..<length (ps @ [q])])) (tr @ [EvStat q]) =
      (Inr (zip ((ps @ [q]) @ qs) (map ?N [0..<length (ps @ [q]) + length qs])), tr')"
    using Cons.prems by (intro Cons.IH) simp_all
  with found upd Cons.prems(1) [of q tr] Cons.prems(2) [of q] show ?case
    by (simp add: Let_def)
qed

lemma set_alist_update_subset: "set (AList.update k v al) \<subseteq> insert (k, v) (set al)"
  by (induction al) auto

lemma update_values_distinct:
  "distinct (map snd al) \<Longrightarrow> v \<notin> snd ` set al \<Longrightarrow> distinct (map snd (AList.update k v al))"
proof (induction al)
  case Nil
  then show ?case by simp
next
  case (Cons p al)
  have "snd ` set (AList.update k v al) \<subseteq> insert v (snd ` set al)"
    using set_alist_update_subset [of k v al] by force
  with Cons show ?case
    by (cases p) auto
qed

lemma loop_one_to_one:
  "create_target_filenames_loop env tdf qs nn tr = (Inr m, tr') \<Longrightarrow>
   distinct (map fst nn) \<Longrightarrow> distinct (map snd nn) \<Longrightarrow> snd ` set nn \<inter> set tdf = {} \<Longrightarrow>
   distinct (map fst m) \<and> distinct (map snd m) \<and> snd ` set m \<inter> set tdf = {} \<and>
   fst ` set m = fst ` set nn \<union> set qs"
proof (induction qs arbitrary: nn tr)
  case Nil
  then show ?case by simp
next
  case (Cons q qs)
  from Cons.prems(1) obtain ts where ts: "extract_timestamp env tr q = Inr ts"
    by (auto split: sum.splits)
  let ?found = "suffix_search (map snd nn) tdf ts (path_suffix q) 0 (ts @ path_suffix q)"
  let ?nn = "AList.update q ?found nn"
  from Cons.prems(1) ts have run:
    "create_target_filenames_loop env tdf qs ?nn (tr @ [EvStat q]) = (Inr m, tr')"
    by (simp add: Let_def)
  have free: "?found \<notin> set (map snd nn) \<union> set tdf"
    by (rule suffix_search_free)
  have keys: "distinct (map fst ?nn)"
    using Cons.prems(2) by (rule distinct_update)
  have vals: "distinct (map snd ?nn)"
    using Cons.prems(3) free by (intro update_values_distinct) simp_all
  have sub: "snd ` set ?nn \<subseteq> insert ?found (snd ` set nn)"
    using set_alist_update_subset [of q ?found nn] by force
  have "x \<notin> set tdf" if "x \<in> snd ` set ?nn" for x
  proof -
    from that sub have "x = ?found \<or> x \<in> snd ` set nn" by auto
    then show ?thesis
    proof
      assume "x = ?found"
      with free show ?thesis by simp
    next
      assume "x \<in> snd ` set nn"
      with Cons.prems(4) show ?thesis by auto
    qed
  qed
  then have clear: "snd ` set ?nn \<inter> set tdf = {}"
    by auto
  from Cons.IH [OF run keys vals clear] dom_update [of q ?found nn] show ?case
    by auto
qed

lemma create_target_filenames_one_to_one:
  assumes "create_target_filenames env tr target_dir_path pictures_paths = (Inr new_names, tr')"
  shows "distinct (map fst new_names) \<and> distinct (map snd new_names) \<and>
    fst ` set new_names = set pictures_paths"
proof -
  from assms obtain tdf where
    "create_target_filenames_loop env tdf pictures_paths [] (tr @ [EvScandir target_dir_path]) =
       (Inr new_names, tr')"
    by (auto simp: create_target_filenames_def split: sum.splits)
  from loop_one_to_one [OF this] show ?thesis by simp
qed

text \<open>
  Claim C3. Let the candidates be distinct paths that all have the time stamp
  \<open>timestamp\<close> and the extension \<open>extension\<close>, and let none of the first
  \<open>length pictures_paths\<close> numbered names be in the target directory. Then the Namer
  succeeds, the mapping lists the candidates in their order, the first with the plain name
  and the \<open>k\<close>-th following one with the suffix \<open>_k\<close>, and the names are pairwise
  distinct.
\<close>

theorem same_second_candidates_numbered:
  assumes listing: "os_scandir env tr target_dir_path = Inr target_dir_files"
    and same_ts: "\<And>t filepath. filepath \<in> set pictures_paths \<Longrightarrow>
        extract_timestamp env t filepath = Inr timestamp"
    and same_ext: "\<And>filepath. filepath \<in> set pictures_paths \<Longrightarrow> path_suffix filepath = extension"
    and dist: "distinct pictures_paths"
    and free: "\<And>k. k < length pictures_paths \<Longrightarrow>
        numbered_name timestamp extension k \<notin> set target_dir_files"
  shows "\<exists>new_names tr'.
      create_target_filenames env tr target_dir_path pictures_paths = (Inr new_names, tr') \<and>
      map fst new_names = pictures_paths \<and>
      map snd new_names = map (numbered_name timestamp extension) [0..<length pictures_paths] \<and>
      distinct (map snd new_names)"
proof -
  let ?N = "numbered_name timestamp extension"
  let ?m = "zip pictures_paths (map ?N [0..<length pictures_paths])"
  from loop_numbered [where ps = "[]" and qs = pictures_paths and env = env and ts = timestamp
      and ext = extension and tdf = target_dir_files and tr = "tr @ [EvScandir target_dir_path]"]
    same_ts same_ext dist free
  obtain tr' where
    "create_target_filenames_loop env target_dir_files pictures_paths []
       (tr @ [EvScandir target_dir_path]) = (Inr ?m, tr')"
    by auto
  with listing have run:
    "create_target_filenames env tr target_dir_path pictures_paths = (Inr ?m, tr')"
    by (simp add: create_target_filenames_def)
  moreover have "map fst ?m = pictures_paths" and "map snd ?m = map ?N [0..<length pictures_paths]"
    by (simp_all add: map_fst_zip map_snd_zip)
  moreover from create_target_filenames_one_to_one [OF run] have "distinct (map snd ?m)"
    by simp
  ultimately show ?thesis
    by blast
qed

theorem same_second_candidates_numbered_witness:
  "os_scandir (quiet_env (\<lambda>p. [])) [] [''target''] = Inr [] \<and>
   distinct [[''floppy'', ''a.jpg''], [''floppy'', ''b.jpg''], [''floppy'', ''c.jpg'']] \<and>
   (\<exists>tr'. create_target_filenames (quiet_env (\<lambda>p. [])) [] [''target'']
       [[''floppy'', ''a.jpg''], [''floppy'', ''b.jpg''], [''floppy'', ''c.jpg'']] =
     (Inr [([''floppy'', ''a.jpg''], ''200101_120000.jpg''),
           ([''floppy'', ''b.jpg''], ''200101_120000_1.jpg''),
           ([''floppy'', ''c.jpg''], ''200101_120000_2.jpg'')], tr'))"
proof -
  let ?env = "quiet_env (\<lambda>p. [])"
  let ?pics = "[[''floppy'', ''a.jpg''], [''floppy'', ''b.jpg''], [''floppy'', ''c.jpg'']]"
  have listing: "os_scandir ?env [] [''target''] = Inr []"
    by (simp add: quiet_env_def)
  have same_ts: "extract_timestamp ?env t filepath = Inr ''200101_120000''" for t filepath
    by (simp add: namer_eval)
  have same_ext: "path_suffix filepath = ''.jpg''" if "filepath \<in> set ?pics" for filepath
    using that by (auto simp: namer_eval)
  have dist: "distinct ?pics"
    by simp
  have free: "numbered_name ''200101_120000'' ''.jpg'' k \<notin> set []" for k
    by simp
  have "\<exists>new_names tr'.
      create_target_filenames ?env [] [''target''] ?pics = (Inr new_names, tr') \<and>
      map fst new_names = ?pics \<and>
      map snd new_names = map (numbered_name ''200101_120000'' ''.jpg'') [0..<length ?pics] \<and>
      distinct (map snd new_names)"
  proof (rule same_second_candidates_numbered)
    show "os_scandir ?env [] [''target''] = Inr []"
      by (rule listing)
    show "extract_timestamp ?env t filepath = Inr ''200101_120000''"
      if "filepath \<in> set ?pics" for t filepath
      by (rule same_ts)
    show "path_suffix filepath = ''.jpg''" if "filepath \<in> set ?pics" for filepath
      using that by (rule same_ext)
    show "distinct ?pics"
      by (rule dist)
    show "numbered_name ''200101_120000'' ''.jpg'' k \<notin> set []"
      if "k < length ?pics" for k
      by (rule free)
  qed
  then obtain new_names tr' where
    run: "create_target_filenames ?env [] [''target''] ?pics = (Inr new_names, tr')" and
    keys: "map fst new_names = ?pics" and
    vals: "map snd new_names = map (numbered_name ''200101_120000'' ''.jpg'') [0..<length ?pics]"
    by (elim exE conjE)
  have "[0..<length ?pics] = [0, 1, 2]"
    by (simp add: upt_rec)
  with vals have "map snd new_names =
      [''200101_120000.jpg'', ''200101_120000_1.jpg'', ''200101_120000_2.jpg'']"
    by (simp add: numbered_name_def suffixed_name_def str_nat.simps digit_char_def)
  with keys have "new_names = zip ?pics
      [''200101_120000.jpg'', ''200101_120000_1.jpg'', ''200101_120000_2.jpg'']"
    by (metis zip_map_fst_snd)
  with run listing dist show ?thesis
    by simp
qed

lemma loop_names_end_with_suffix:
  "create_target_filenames_loop env tdf qs nn tr = (Inr m, tr') \<Longrightarrow>
   (\<And>c n. (c, n) \<in> set nn \<Longrightarrow> \<exists>stem. n = stem @ path_suffix c) \<Longrightarrow>
   (c, n) \<in> set m \<Longrightarrow> \<exists>stem. n = stem @ path_suffix c"
proof (induction qs arbitrary: nn tr)
  case Nil
  then show ?case by simp
next
  case (Cons q qs)
  from Cons.prems(1) obtain ts where ts: "extract_timestamp env tr q = Inr ts"
    by (auto split: sum.splits)
  let ?found = "suffix_search (map snd nn) tdf ts (path_suffix q) 0 (ts @ path_suffix q)"
  let ?nn = "AList.update q ?found nn"
  from Cons.prems(1) ts have run:
    "create_target_filenames_loop env tdf qs ?nn (tr @ [EvStat q]) = (Inr m, tr')"
    by (simp add: Let_def)
  from suffix_search_turns [of "map snd nn" tdf ts "path_suffix q" 0 "ts @ path_suffix q"]
  have found: "\<exists>stem. ?found = stem @ path_suffix q"
    by (auto simp: suffixed_name_def split: if_splits)
  have "\<exists>stem. n' = stem @ path_suffix c'" if "(c', n') \<in> set ?nn" for c' n'
  proof -
    from that set_alist_update_subset [of q ?found nn]
    consider "(c', n') = (q, ?found)" | "(c', n') \<in> set nn" by auto
    then show ?thesis
      using found Cons.prems(2) by cases auto
  qed
  from Cons.IH [OF run this Cons.prems(3)] show ?case .
qed

lemma path_suffix_is_drop: "\<exists>k. path_suffix p = drop k (path_name p)"
proof (cases "path_suffix p = []")
  case True
  then have "path_suffix p = drop (length (path_name p)) (path_name p)" by simp
  then show ?thesis ..
next
  case False
  then have "path_suffix p = drop (nat (rfind (path_name p) (CHR ''.''))) (path_name p)"
    by (simp add: path_suffix_def Let_def split: if_splits)
  then show ?thesis ..
qed

lemma lower_char_dot: "lower_char c = CHR ''.'' \<longleftrightarrow> c = CHR ''.''"
  by (auto simp: lower_char_def split: if_splits)

lemma glob_jpg_suffix:
  assumes match: "glob_jpg (path_name p)" and stem: "4 < length (path_name p)"
  shows "path_suffix p = drop (length (path_name p) - 4) (path_name p)"
proof -
  define name where "name = path_name p"
  define pre where "pre = take (length name - 4) name"
  define ext where "ext = drop (length name - 4) name"
  have split: "name = pre @ ext"
    by (simp add: pre_def ext_def)
  from stem have len: "length ext = 4" and pre: "pre \<noteq> []" "length pre = length name - 4"
    by (auto simp: ext_def pre_def name_def)
  from len obtain a b c e where ext: "ext = [a, b, c, e]"
    by (auto simp: length_Suc_conv eval_nat_numeral)
  from match have "lower ext = ''.jpg''"
    by (simp add: glob_jpg_def ext_def name_def)
  with ext have low: "lower_char a = CHR ''.''" "lower_char b = CHR ''j''"
    "lower_char c = CHR ''p''" "lower_char e = CHR ''g''"
    by (simp_all add: lower_def)
  have dot: "lower_char (CHR ''.'') = CHR ''.''"
    by (simp add: lower_char_dot)
  from low(1) have "a = CHR ''.''"
    by (simp add: lower_char_dot)
  moreover from low(2-4) dot have "b \<noteq> CHR ''.''" "c \<noteq> CHR ''.''" "e \<noteq> CHR ''.''"
    by auto
  ultimately have chars: "a = CHR ''.''" "b \<noteq> CHR ''.''" "c \<noteq> CHR ''.''" "e \<noteq> CHR ''.''"
    by simp_all
  have "rfind name (CHR ''.'') = int (length pre)"
    using chars pre(1) by (simp add: rfind_def split ext)
  moreover have "length name = length pre + 4"
    using split len by simp
  ultimately have "path_suffix p = drop (length pre) name"
    using pre(1) by (simp add: path_suffix_def name_def [symmetric] Let_def)
  with pre(2) show ?thesis
    by (simp add: name_def)
qed

text \<open>
  Claim C10. Every name the Namer assigns ends in the candidate's extension as
  \<^verbatim>\<open>filepath.suffix\<close> gives it, and that extension is a final piece of the candidate's own
  name, character for character: no case is changed. For a candidate the Scanner's
  pattern accepts and whose name has more than the four characters of the extension, it
  is the last four characters of the name. The Scanner accepts \<^verbatim>\<open>FOO.JPG\<close>, and its new
  name ends in \<^verbatim>\<open>.JPG\<close>.
\<close>

theorem extension_kept_verbatim:
  assumes "create_target_filenames env tr target_dir_path pictures_paths = (Inr new_names, tr')"
    and "(filepath, new_filename) \<in> set new_names"
  shows "(\<exists>stem. new_filename = stem @ path_suffix filepath) \<and>
    (\<exists>k. path_suffix filepath = drop k (path_name filepath)) \<and>
    (glob_jpg (path_name filepath) \<and> 4 < length (path_name filepath) \<longrightarrow>
       path_suffix filepath = drop (length (path_name filepath) - 4) (path_name filepath))"
proof (intro conjI impI)
  from assms(1) obtain tdf where
    "create_target_filenames_loop env tdf pictures_paths [] (tr @ [EvScandir target_dir_path]) =
       (Inr new_names, tr')"
    by (auto simp: create_target_filenames_def split: sum.splits)
  from loop_names_end_with_suffix [OF this _ assms(2)]
  show "\<exists>stem. new_filename = stem @ path_suffix filepath"
    by simp
  show "\<exists>k. path_suffix filepath = drop k (path_name filepath)"
    by (rule path_suffix_is_drop)
  show "path_suffix filepath = drop (length (path_name filepath) - 4) (path_name filepath)"
    if "glob_jpg (path_name filepath) \<and> 4 < length (path_name filepath)"
    using that by (intro glob_jpg_suffix) simp_all
qed

theorem extension_kept_verbatim_witness:
  "find_pictures (quiet_env (\<lambda>p. [''FOO.JPG'', ''notes.txt''])) [] [''floppy''] =
     (Inr [[''floppy'', ''FOO.JPG'']],
      [EvScandir [''floppy''], EvLog INFO (PicturesFound 1)]) \<and>
   create_target_filenames (quiet_env (\<lambda>p. [''FOO.JPG'', ''notes.txt''])) [] [''target'']
     [[''floppy'', ''FOO.JPG'']] =
     (Inr [([''floppy'', ''FOO.JPG''], ''200101_120000.JPG'')],
      [EvScandir [''target''], EvStat [''floppy'', ''FOO.JPG'']]) \<and>
   ([''floppy'', ''FOO.JPG''], ''200101_120000.JPG'') \<in>
     set [([''floppy'', ''FOO.JPG''], ''200101_120000.JPG'')] \<and>
   glob_jpg (path_name [''floppy'', ''FOO.JPG'']) \<and>
   4 < length (path_name [''floppy'', ''FOO.JPG'']) \<and>
   path_suffix [''floppy'', ''FOO.JPG''] = ''.JPG'' \<and>
   (\<exists>stem. ''200101_120000.JPG'' = stem @ ''.JPG'')"
proof -
  let ?env = "quiet_env (\<lambda>p. [''FOO.JPG'', ''notes.txt''])"
  have scan: "find_pictures ?env [] [''floppy''] =
     (Inr [[''floppy'', ''FOO.JPG'']], [EvScandir [''floppy''], EvLog INFO (PicturesFound 1)])"
    by (simp add: find_pictures_def glob_names_def quiet_env_def glob_jpg_def lower_def
        lower_char_def
        joinpath_def)
  have run: "create_target_filenames ?env [] [''target''] [[''floppy'', ''FOO.JPG'']] =
     (Inr [([''floppy'', ''FOO.JPG''], ''200101_120000.JPG'')],
      [EvScandir [''target''], EvStat [''floppy'', ''FOO.JPG'']])"
    by (simp add: namer_eval)
  have mem: "([''floppy'', ''FOO.JPG''], ''200101_120000.JPG'') \<in>
     set [([''floppy'', ''FOO.JPG''], ''200101_120000.JPG'')]"
    by simp
  have ext: "path_suffix [''floppy'', ''FOO.JPG''] = ''.JPG''"
    by (simp add: namer_eval)
  have glob: "glob_jpg (path_name [''floppy'', ''FOO.JPG''])"
    "4 < length (path_name [''floppy'', ''FOO.JPG''])"
    by (simp_all add: glob_jpg_def lower_def lower_char_def path_name_def)
  from extension_kept_verbatim [OF run mem] scan run mem ext glob show ?thesis
    by simp
qed

subsection \<open>The Copier\<close>

lemmas copier_eval =
  copy_files_def quiet_env_def copy_fails_env_def chown_fails_env_def joinpath_def Let_def
  add_note_def copy_call_def

lemma copied_simps [simp]:
  "copied [] = []"
  "copied (Inr p # outcomes) = p # copied outcomes"
  "copied (Inl e # outcomes) = copied outcomes"
  by (simp_all add: copied_def)

lemma failed_simps [simp]:
  "failed [] outcomes = []"
  "failed candidates [] = []"
  "failed (c # candidates) (Inr p # outcomes) = failed candidates outcomes"
  "failed (c # candidates) (Inl e # outcomes) = c # failed candidates outcomes"
  by (simp_all add: failed_def)

lemma copy_loop_append:
  "copy_loop env t (xs @ ys) st = copy_loop env t ys (copy_loop env t xs st)"
proof (induction xs arbitrary: st)
  case Nil
  then show ?case by simp
next
  case (Cons x xs)
  obtain c n where x: "x = (c, n)" by (cases x)
  obtain s f tr where st: "st = (s, f, tr)" by (cases st)
  show ?case
    by (simp add: x st Let_def Cons.IH split: sum.splits)
qed

lemma copy_loop_result:
  "copy_loop env t xs (s0, f0, tr0) = (s, f, tr1) \<Longrightarrow>
   \<exists>outcomes. length outcomes = length xs \<and>
     s = s0 @ copied outcomes \<and>
     f = f0 @ failed (map fst xs) outcomes \<and>
     length s + length f = length s0 + length f0 + length xs"
proof (induction xs arbitrary: s0 f0 tr0)
  case Nil
  then show ?case by simp
next
  case (Cons x xs)
  obtain c n where x: "x = (c, n)" by (cases x)
  show ?case
  proof (cases "os_copy2 env tr0 c (joinpath t n)")
    case (Inr p)
    with Cons.prems x have
      "copy_loop env t xs (s0 @ [p], f0, tr0 @ [EvCopy2 c (joinpath t n)]) = (s, f, tr1)"
      by (simp add: Let_def)
    from Cons.IH [OF this] obtain outcomes where
      "length outcomes = length xs"
      "s = (s0 @ [p]) @ copied outcomes"
      "f = f0 @ failed (map fst xs) outcomes"
      "length s + length f = length (s0 @ [p]) + length f0 + length xs"
      by (elim exE conjE)
    then show ?thesis
      by (intro exI [of _ "Inr p # outcomes"]) (simp add: x)
  next
    case (Inl e)
    with Cons.prems x have
      "copy_loop env t xs (s0, f0 @ [c],
         tr0 @ [EvCopy2 c (joinpath t n), EvLog ERROR (ExnMsg e)]) = (s, f, tr1)"
      by (simp add: Let_def)
    from Cons.IH [OF this] obtain outcomes where
      "length outcomes = length xs"
      "s = s0 @ copied outcomes"
      "f = (f0 @ [c]) @ failed (map fst xs) outcomes"
      "length s + length f = length s0 + length (f0 @ [c]) + length xs"
      by (elim exE conjE)
    then show ?thesis
      by (intro exI [of _ "Inl e # outcomes"]) (simp add: x)
  qed
qed

lemma copy_loop_trace:
  "copy_loop env t xs (s0, f0, tr0) = (s, f, tr1) \<Longrightarrow>
   filter is_copy_call tr1 = filter is_copy_call tr0 @ map (copy_call t) xs \<and>
   filter is_chown_call tr1 = filter is_chown_call tr0 \<and>
   filter is_warning tr1 = filter is_warning tr0 \<and>
   set tr0 \<subseteq> set tr1 \<and> set f0 \<subseteq> set f"
proof (induction xs arbitrary: s0 f0 tr0)
  case Nil
  then show ?case by simp
next
  case (Cons x xs)
  obtain c n where x: "x = (c, n)" by (cases x)
  show ?case
  proof (cases "os_copy2 env tr0 c (joinpath t n)")
    case (Inr p)
    with Cons.prems x have
      "copy_loop env t xs (s0 @ [p], f0, tr0 @ [EvCopy2 c (joinpath t n)]) = (s, f, tr1)"
      by (simp add: Let_def)
    from Cons.IH [OF this] show ?thesis
      by (simp add: x copy_call_def)
  next
    case (Inl e)
    with Cons.prems x have
      "copy_loop env t xs (s0, f0 @ [c],
         tr0 @ [EvCopy2 c (joinpath t n), EvLog ERROR (ExnMsg e)]) = (s, f, tr1)"
      by (simp add: Let_def)
    from Cons.IH [OF this] show ?thesis
      by (simp add: x copy_call_def)
  qed
qed

lemma copy_loop_chown_irrelevant:
  "copy_loop (env\<lparr>os_chown := ch\<rparr>) t xs st = copy_loop env t xs st"
proof (induction xs arbitrary: st)
  case Nil
  then show ?case by simp
next
  case (Cons x xs)
  obtain c n where x: "x = (c, n)" by (cases x)
  obtain s f tr where st: "st = (s, f, tr)" by (cases st)
  show ?case
    by (simp add: x st Let_def Cons.IH split: sum.splits)
qed

text \<open>What the ownership loop leaves in the trace.\<close>

lemma chown_loop_trace:
  "chown_loop env ps tr = (r, tr') \<Longrightarrow>
   \<exists>k\<le>length ps. tr' = tr @ map (\<lambda>p. EvChown p 1000 1000) (take k ps) \<and>
     (case r of
        None \<Rightarrow> k = length ps
      | Some e \<Rightarrow> 0 < k \<and>
          os_chown env (tr @ map (\<lambda>p. EvChown p 1000 1000) (take (k - 1) ps)) (ps ! (k - 1))
            1000 1000 = Some e)"
proof (induction ps arbitrary: tr)
  case Nil
  then show ?case by auto
next
  case (Cons p ps)
  show ?case
  proof (cases "os_chown env tr p 1000 1000")
    case (Some e)
    with Cons.prems have "r = Some e" "tr' = tr @ [EvChown p 1000 1000]"
      by simp_all
    with Some show ?thesis
      by (intro exI [of _ 1]) simp
  next
    case None
    with Cons.prems have "chown_loop env ps (tr @ [EvChown p 1000 1000]) = (r, tr')"
      by simp
    from Cons.IH [OF this] obtain k where k:
      "k \<le> length ps"
      "tr' = (tr @ [EvChown p 1000 1000]) @ map (\<lambda>p. EvChown p 1000 1000) (take k ps)"
      "case r of
         None \<Rightarrow> k = length ps
       | Some e \<Rightarrow> 0 < k \<and>
           os_chown env ((tr @ [EvChown p 1000 1000]) @
             map (\<lambda>p. EvChown p 1000 1000) (take (k - 1) ps)) (ps ! (k - 1)) 1000 1000 = Some e"
      by (elim exE conjE)
    show ?thesis
    proof (intro exI [of _ "Suc k"] conjI)
      show "Suc k \<le> length (p # ps)" using k(1) by simp
      show "tr' = tr @ map (\<lambda>p. EvChown p 1000 1000) (take (Suc k) (p # ps))"
        using k(2) by simp
      show "case r of
          None \<Rightarrow> Suc k = length (p # ps)
        | Some e \<Rightarrow> 0 < Suc k \<and>
            os_chown env (tr @ map (\<lambda>p. EvChown p 1000 1000) (take (Suc k - 1) (p # ps)))
              ((p # ps) ! (Suc k - 1)) 1000 1000 = Some e"
      proof (cases r)
        case None
        with k(3) show ?thesis by simp
      next
        case (Some e)
        with k(3) have "0 < k" by simp
        then obtain j where "k = Suc j" by (cases k) auto
        with Some k(3) show ?thesis by simp
      qed
    qed
  qed
qed


lemma copy_files_decompose:
  assumes "copy_files env tr tf t = ((s, f), tr')"
  shows "\<exists>tr1 logs r tr4.
      copy_loop env t tf ([], [], tr) = (s, f, tr1) \<and>
      filter is_copy_call logs = [] \<and> filter is_chown_call logs = [] \<and>
      filter is_warning logs = [] \<and>
      chown_loop env s (tr1 @ logs) = (r, tr4) \<and>
      tr' = tr4 @ (case r of
                     None \<Rightarrow> []
                   | Some e \<Rightarrow> [EvLog WARNING (ExnMsg (add_note e CouldNotSetOwnership))])"
proof -
  obtain s1 f1 tr1 where loop: "copy_loop env t tf ([], [], tr) = (s1, f1, tr1)"
    by (cases "copy_loop env t tf ([], [], tr)")
  let ?logs = "[EvLog INFO (CopiedSummary (length s1) (length tf))] @
      map (\<lambda>path. EvLog INFO (PathMsg path)) s1 @
      (if f1 \<noteq> []
       then [EvLog ERROR (FailedSummary (length f1) (length tf))] @
            map (\<lambda>path. EvLog ERROR (PathMsg path)) f1
       else [])"
  obtain r tr4 where chown: "chown_loop env s1 (tr1 @ ?logs) = (r, tr4)"
    by (cases "chown_loop env s1 (tr1 @ ?logs)")
  from assms loop chown have res: "s = s1" "f = f1"
    "tr' = tr4 @ (case r of
                    None \<Rightarrow> []
                  | Some e \<Rightarrow> [EvLog WARNING (ExnMsg (add_note e CouldNotSetOwnership))])"
    by (auto simp: copy_files_def Let_def split: if_splits option.splits)
  have "filter is_copy_call ?logs = []" "filter is_chown_call ?logs = []"
    "filter is_warning ?logs = []"
    by (simp_all add: filter_map comp_def)
  with loop chown res show ?thesis
    by blast
qed

lemma copy_loop_trace_indep:
  "snd (snd (copy_loop env t xs (s, f, tr))) = snd (snd (copy_loop env t xs ([], [], tr)))"
proof (induction xs arbitrary: s f tr rule: rev_induct)
  case Nil
  then show ?case by simp
next
  case (snoc x xs)
  obtain c n where x: "x = (c, n)" by (cases x)
  obtain s1 f1 tr1 where a: "copy_loop env t xs (s, f, tr) = (s1, f1, tr1)"
    by (cases "copy_loop env t xs (s, f, tr)")
  obtain s2 f2 tr2 where b: "copy_loop env t xs ([], [], tr) = (s2, f2, tr2)"
    by (cases "copy_loop env t xs ([], [], tr)")
  from snoc.IH [of s f tr] a b have "tr1 = tr2" by simp
  with a b show ?case
    by (simp add: copy_loop_append x Let_def split: sum.splits)
qed

lemma copy_outcomes_Nil [simp]: "copy_outcomes env tr [] t = []"
  by (simp add: copy_outcomes_def)

lemma copy_outcomes_Cons:
  "copy_outcomes env tr ((c, n) # xs) t =
     os_copy2 env tr c (joinpath t n) #
     copy_outcomes env
       (tr @ EvCopy2 c (joinpath t n) #
          (case os_copy2 env tr c (joinpath t n) of
             Inl e \<Rightarrow> [EvLog ERROR (ExnMsg e)]
           | Inr p \<Rightarrow> []))
       xs t"
proof -
  have step: "snd (snd (copy_loop env t ((c, n) # ys) ([], [], tr))) =
      snd (snd (copy_loop env t ys ([], [],
        tr @ EvCopy2 c (joinpath t n) #
          (case os_copy2 env tr c (joinpath t n) of
             Inl e \<Rightarrow> [EvLog ERROR (ExnMsg e)]
           | Inr p \<Rightarrow> []))))" for ys
    by (cases "os_copy2 env tr c (joinpath t n)")
      (simp_all add: Let_def copy_loop_trace_indep [of env t ys "[_]" "[]"]
        copy_loop_trace_indep [of env t ys "[]" "[_]"])
  show ?thesis
    unfolding copy_outcomes_def
    by (simp add: map_upt_Suc step del: upt_Suc copy_loop.simps(2))
qed

lemma copy_loop_lists:
  "copy_loop env t xs (s0, f0, tr0) = (s, f, tr1) \<Longrightarrow>
   s = s0 @ copied (copy_outcomes env tr0 xs t) \<and>
   f = f0 @ failed (map fst xs) (copy_outcomes env tr0 xs t)"
proof (induction xs arbitrary: s0 f0 tr0)
  case Nil
  then show ?case by simp
next
  case (Cons x xs)
  obtain c n where x: "x = (c, n)" by (cases x)
  show ?case
  proof (cases "os_copy2 env tr0 c (joinpath t n)")
    case (Inr p)
    with Cons.prems x have
      "copy_loop env t xs (s0 @ [p], f0, tr0 @ [EvCopy2 c (joinpath t n)]) = (s, f, tr1)"
      by (simp add: Let_def)
    from Cons.IH [OF this] Inr show ?thesis
      by (simp add: x copy_outcomes_Cons)
  next
    case (Inl e)
    with Cons.prems x have
      "copy_loop env t xs (s0, f0 @ [c],
         tr0 @ [EvCopy2 c (joinpath t n), EvLog ERROR (ExnMsg e)]) = (s, f, tr1)"
      by (simp add: Let_def)
    from Cons.IH [OF this] Inl show ?thesis
      by (simp add: x copy_outcomes_Cons)
  qed
qed

lemma failed_subset: "set (failed candidates outcomes) \<subseteq> set candidates"
  by (auto simp: failed_def dest: set_zip_leftD)

lemma length_copy_outcomes [simp]: "length (copy_outcomes env tr xs t) = length xs"
  by (simp add: copy_outcomes_def)

text \<open>
  Claim C4, as the code has it. The failure list is a list of candidates, but the success
  list holds what \<^verbatim>\<open>shutil.copy2\<close> returned, the paths of the new files in the target
  directory. With \<open>copy_outcomes\<close> the answers \<^verbatim>\<open>shutil.copy2\<close> gave for the pairs of the
  mapping during the run, in order: the success list is the list of the paths returned by
  the copies that succeeded, the failure list is the list of the candidates whose copy
  raised. So each pair puts one element into exactly one of the two lists and the lengths
  add up to the number of candidates; the failure list holds candidates only; and the two
  lists are disjoint whenever no returned path is itself a candidate.
\<close>

theorem copy_files_outcome_lists:
  assumes "copy_files env tr target_filenames target_dir_path = ((success_paths, fail_paths), tr')"
  shows "success_paths = copied (copy_outcomes env tr target_filenames target_dir_path) \<and>
    fail_paths =
      failed (map fst target_filenames) (copy_outcomes env tr target_filenames target_dir_path) \<and>
    length success_paths + length fail_paths = length target_filenames \<and>
    set fail_paths \<subseteq> set (map fst target_filenames) \<and>
    (set success_paths \<inter> set (map fst target_filenames) = {} \<longrightarrow>
       set success_paths \<inter> set fail_paths = {})"
proof -
  from copy_files_decompose [OF assms] obtain tr1 where
    loop: "copy_loop env target_dir_path target_filenames ([], [], tr) =
      (success_paths, fail_paths, tr1)"
    by (elim exE conjE)
  from copy_loop_lists [OF loop] have
    lists: "success_paths = copied (copy_outcomes env tr target_filenames target_dir_path)"
      "fail_paths =
        failed (map fst target_filenames) (copy_outcomes env tr target_filenames target_dir_path)"
    by simp_all
  from copy_loop_result [OF loop] have
    len: "length success_paths + length fail_paths = length target_filenames"
    by auto
  from lists(2) failed_subset have sub: "set fail_paths \<subseteq> set (map fst target_filenames)"
    by metis
  then have "set success_paths \<inter> set (map fst target_filenames) = {} \<longrightarrow>
       set success_paths \<inter> set fail_paths = {}"
    by auto
  with lists len sub show ?thesis
    by (intro conjI)
qed

theorem copy_files_outcome_lists_witness:
  "copy_files (copy_fails_env (\<lambda>p. []) [''floppy'', ''a.jpg'']) []
     [([''floppy'', ''a.jpg''], ''200101_120000.jpg''),
      ([''floppy'', ''b.jpg''], ''200101_120000_1.jpg'')] [''target''] =
     (([[''target'', ''200101_120000_1.jpg'']], [[''floppy'', ''a.jpg'']]),
      [EvCopy2 [''floppy'', ''a.jpg''] [''target'', ''200101_120000.jpg''],
       EvLog ERROR (ExnMsg (Exn OSError ''[Errno 28] No space left on device'' [])),
       EvCopy2 [''floppy'', ''b.jpg''] [''target'', ''200101_120000_1.jpg''],
       EvLog INFO (CopiedSummary 1 2),
       EvLog INFO (PathMsg [''target'', ''200101_120000_1.jpg'']),
       EvLog ERROR (FailedSummary 1 2),
       EvLog ERROR (PathMsg [''floppy'', ''a.jpg'']),
       EvChown [''target'', ''200101_120000_1.jpg''] 1000 1000]) \<and>
   copy_outcomes (copy_fails_env (\<lambda>p. []) [''floppy'', ''a.jpg'']) []
     [([''floppy'', ''a.jpg''], ''200101_120000.jpg''),
      ([''floppy'', ''b.jpg''], ''200101_120000_1.jpg'')] [''target''] =
     [Inl (Exn OSError ''[Errno 28] No space left on device'' []),
      Inr [''target'', ''200101_120000_1.jpg'']] \<and>
   [[''target'', ''200101_120000_1.jpg'']] =
     copied (copy_outcomes (copy_fails_env (\<lambda>p. []) [''floppy'', ''a.jpg'']) []
       [([''floppy'', ''a.jpg''], ''200101_120000.jpg''),
        ([''floppy'', ''b.jpg''], ''200101_120000_1.jpg'')] [''target'']) \<and>
   [[''floppy'', ''a.jpg'']] =
     failed [[''floppy'', ''a.jpg''], [''floppy'', ''b.jpg'']]
       (copy_outcomes (copy_fails_env (\<lambda>p. []) [''floppy'', ''a.jpg'']) []
         [([''floppy'', ''a.jpg''], ''200101_120000.jpg''),
          ([''floppy'', ''b.jpg''], ''200101_120000_1.jpg'')] [''target'']) \<and>
   set [[''target'', ''200101_120000_1.jpg'']] \<inter>
     set [[''floppy'', ''a.jpg''], [''floppy'', ''b.jpg'']] = {} \<and>
   set [[''target'', ''200101_120000_1.jpg'']] \<inter> set [[''floppy'', ''a.jpg'']] = {}"
proof -
  let ?env = "copy_fails_env (\<lambda>p. []) [''floppy'', ''a.jpg'']"
  let ?tf = "[([''floppy'', ''a.jpg''], ''200101_120000.jpg''),
      ([''floppy'', ''b.jpg''], ''200101_120000_1.jpg'')]"
  have run: "copy_files ?env [] ?tf [''target''] =
     (([[''target'', ''200101_120000_1.jpg'']], [[''floppy'', ''a.jpg'']]),
      [EvCopy2 [''floppy'', ''a.jpg''] [''target'', ''200101_120000.jpg''],
       EvLog ERROR (ExnMsg (Exn OSError ''[Errno 28] No space left on device'' [])),
       EvCopy2 [''floppy'', ''b.jpg''] [''target'', ''200101_120000_1.jpg''],
       EvLog INFO (CopiedSummary 1 2),
       EvLog INFO (PathMsg [''target'', ''200101_120000_1.jpg'']),
       EvLog ERROR (FailedSummary 1 2),
       EvLog ERROR (PathMsg [''floppy'', ''a.jpg'']),
       EvChown [''target'', ''200101_120000_1.jpg''] 1000 1000])"
    by (simp add: copier_eval)
  have outcomes: "copy_outcomes ?env [] ?tf [''target''] =
     [Inl (Exn OSError ''[Errno 28] No space left on device'' []),
      Inr [''target'', ''200101_120000_1.jpg'']]"
    by (simp add: copy_outcomes_Cons copier_eval)
  have apart: "set [[''target'', ''200101_120000_1.jpg'']] \<inter>
     set [[''floppy'', ''a.jpg''], [''floppy'', ''b.jpg'']] = {}"
    by simp
  from copy_files_outcome_lists [OF run] have
    lists: "[[''target'', ''200101_120000_1.jpg'']] = copied (copy_outcomes ?env [] ?tf [''target''])"
      "[[''floppy'', ''a.jpg'']] =
        failed (map fst ?tf) (copy_outcomes ?env [] ?tf [''target''])" and
    disjoint: "set [[''target'', ''200101_120000_1.jpg'']] \<inter> set (map fst ?tf) = {} \<longrightarrow>
      set [[''target'', ''200101_120000_1.jpg'']] \<inter> set [[''floppy'', ''a.jpg'']] = {}"
    by blast+
  from lists(2) have failures: "[[''floppy'', ''a.jpg'']] =
      failed [[''floppy'', ''a.jpg''], [''floppy'', ''b.jpg'']]
        (copy_outcomes ?env [] ?tf [''target''])"
    by simp
  from disjoint apart have
    "set [[''target'', ''200101_120000_1.jpg'']] \<inter> set [[''floppy'', ''a.jpg'']] = {}"
    by simp
  with run outcomes lists(1) failures apart show ?thesis
    by (intro conjI)
qed

text \<open>
  The claim as the spec words it fails twice. After a copy that succeeds the candidate is
  in neither list, because the success list holds the destination. And the lists need not
  be disjoint: when the copy of \<^verbatim>\<open>target/a.jpg\<close> to \<^verbatim>\<open>target/b.jpg\<close> succeeds and the
  copy of the candidate \<^verbatim>\<open>target/b.jpg\<close> raises, \<^verbatim>\<open>target/b.jpg\<close> is in both.
\<close>

theorem success_list_holds_destinations:
  "fst (copy_files (quiet_env (\<lambda>p. [])) []
     [([''floppy'', ''a.jpg''], ''200101_120000.jpg'')] [''target'']) =
     ([[''target'', ''200101_120000.jpg'']], []) \<and>
   [''floppy'', ''a.jpg''] \<notin> set [[''target'', ''200101_120000.jpg'']] \<union> set [] \<and>
   fst (copy_files (copy_fails_env (\<lambda>p. []) [''target'', ''b.jpg'']) []
     [([''target'', ''a.jpg''], ''b.jpg''), ([''target'', ''b.jpg''], ''c.jpg'')] [''target'']) =
     ([[''target'', ''b.jpg'']], [[''target'', ''b.jpg'']]) \<and>
   set [[''target'', ''b.jpg'']] \<inter> set [[''target'', ''b.jpg'']] = {[''target'', ''b.jpg'']}"
  by (simp add: copier_eval)

text \<open>
  Claim C5. When the copy of a pair raises, the candidate is in the failure list, the
  exception is in the log at level ERROR, and the copy pass still calls
  \<^verbatim>\<open>shutil.copy2\<close> once for every pair of the mapping, in order: the pairs after the
  failure included.
\<close>

theorem copy_error_recorded_and_batch_continues:
  assumes earlier: "copy_loop env target_dir_path before ([], [], tr) = (s1, f1, tr1)"
    and fails: "os_copy2 env tr1 filepath (joinpath target_dir_path new_name) = Inl e"
    and run: "copy_files env tr (before @ (filepath, new_name) # rest) target_dir_path =
      ((success_paths, fail_paths), tr')"
  shows "filepath \<in> set fail_paths \<and> EvLog ERROR (ExnMsg e) \<in> set tr' \<and>
    filter is_copy_call tr' =
      filter is_copy_call tr @
      map (copy_call target_dir_path) (before @ (filepath, new_name) # rest)"
proof -
  let ?all = "before @ (filepath, new_name) # rest"
  from copy_files_decompose [OF run] obtain tr2 logs r tr4 where
    whole: "copy_loop env target_dir_path ?all ([], [], tr) = (success_paths, fail_paths, tr2)" and
    logs: "filter is_copy_call logs = []" and
    chown: "chown_loop env success_paths (tr2 @ logs) = (r, tr4)" and
    tr': "tr' = tr4 @ (case r of
                         None \<Rightarrow> []
                       | Some e \<Rightarrow> [EvLog WARNING (ExnMsg (add_note e CouldNotSetOwnership))])"
    by (elim exE conjE)
  from chown_loop_trace [OF chown] obtain k where
    tr4: "tr4 = (tr2 @ logs) @ map (\<lambda>p. EvChown p 1000 1000) (take k success_paths)"
    by (elim exE conjE)
  have "copy_loop env target_dir_path ?all ([], [], tr) =
      copy_loop env target_dir_path rest
        (s1, f1 @ [filepath],
         tr1 @ [EvCopy2 filepath (joinpath target_dir_path new_name), EvLog ERROR (ExnMsg e)])"
    using earlier fails by (simp add: copy_loop_append Let_def)
  with whole have "copy_loop env target_dir_path rest
        (s1, f1 @ [filepath],
         tr1 @ [EvCopy2 filepath (joinpath target_dir_path new_name), EvLog ERROR (ExnMsg e)]) =
      (success_paths, fail_paths, tr2)"
    by simp
  from copy_loop_trace [OF this] have
    "filepath \<in> set fail_paths" and logged: "EvLog ERROR (ExnMsg e) \<in> set tr2"
    by auto
  moreover from logged tr' tr4 have "EvLog ERROR (ExnMsg e) \<in> set tr'"
    by simp
  moreover have "filter is_copy_call tr' = filter is_copy_call tr2"
    using tr' tr4 logs by (simp add: filter_map comp_def split: option.splits)
  moreover from copy_loop_trace [OF whole] have
    "filter is_copy_call tr2 = filter is_copy_call tr @ map (copy_call target_dir_path) ?all"
    by simp
  ultimately show ?thesis
    by simp
qed

theorem copy_error_recorded_and_batch_continues_witness:
  "copy_loop (copy_fails_env (\<lambda>p. []) [''floppy'', ''a.jpg'']) [''target''] [] ([], [], []) =
     ([], [], []) \<and>
   os_copy2 (copy_fails_env (\<lambda>p. []) [''floppy'', ''a.jpg'']) [] [''floppy'', ''a.jpg'']
     (joinpath [''target''] ''200101_120000.jpg'') = Inl (Exn OSError ''[Errno 28] No space left on device'' []) \<and>
   copy_files (copy_fails_env (\<lambda>p. []) [''floppy'', ''a.jpg'']) []
     ([] @ ([''floppy'', ''a.jpg''], ''200101_120000.jpg'') #
      [([''floppy'', ''b.jpg''], ''200101_120000_1.jpg'')]) [''target''] =
     (([[''target'', ''200101_120000_1.jpg'']], [[''floppy'', ''a.jpg'']]),
      [EvCopy2 [''floppy'', ''a.jpg''] [''target'', ''200101_120000.jpg''],
       EvLog ERROR (ExnMsg (Exn OSError ''[Errno 28] No space left on device'' [])),
       EvCopy2 [''floppy'', ''b.jpg''] [''target'', ''200101_120000_1.jpg''],
       EvLog INFO (CopiedSummary 1 2),
       EvLog INFO (PathMsg [''target'', ''200101_120000_1.jpg'']),
       EvLog ERROR (FailedSummary 1 2),
       EvLog ERROR (PathMsg [''floppy'', ''a.jpg'']),
       EvChown [''target'', ''200101_120000_1.jpg''] 1000 1000]) \<and>
   [''floppy'', ''a.jpg''] \<in> set [[''floppy'', ''a.jpg'']] \<and>
   filter is_copy_call
     [EvCopy2 [''floppy'', ''a.jpg''] [''target'', ''200101_120000.jpg''],
      EvLog ERROR (ExnMsg (Exn OSError ''[Errno 28] No space left on device'' [])),
      EvCopy2 [''floppy'', ''b.jpg''] [''target'', ''200101_120000_1.jpg''],
      EvLog INFO (CopiedSummary 1 2),
      EvLog INFO (PathMsg [''target'', ''200101_120000_1.jpg'']),
      EvLog ERROR (FailedSummary 1 2),
      EvLog ERROR (PathMsg [''floppy'', ''a.jpg'']),
      EvChown [''target'', ''200101_120000_1.jpg''] 1000 1000] =
     [EvCopy2 [''floppy'', ''a.jpg''] [''target'', ''200101_120000.jpg''],
      EvCopy2 [''floppy'', ''b.jpg''] [''target'', ''200101_120000_1.jpg'']]"
proof -
  let ?env = "copy_fails_env (\<lambda>p. []) [''floppy'', ''a.jpg'']"
  let ?tf = "[] @ ([''floppy'', ''a.jpg''], ''200101_120000.jpg'') #
      [([''floppy'', ''b.jpg''], ''200101_120000_1.jpg'')]"
  have earlier: "copy_loop ?env [''target''] [] ([], [], []) = ([], [], [])"
    by simp
  have fails: "os_copy2 ?env [] [''floppy'', ''a.jpg'']
     (joinpath [''target''] ''200101_120000.jpg'') = Inl (Exn OSError ''[Errno 28] No space left on device'' [])"
    by (simp add: copier_eval)
  have run: "copy_files ?env [] ?tf [''target''] =
     (([[''target'', ''200101_120000_1.jpg'']], [[''floppy'', ''a.jpg'']]),
      [EvCopy2 [''floppy'', ''a.jpg''] [''target'', ''200101_120000.jpg''],
       EvLog ERROR (ExnMsg (Exn OSError ''[Errno 28] No space left on device'' [])),
       EvCopy2 [''floppy'', ''b.jpg''] [''target'', ''200101_120000_1.jpg''],
       EvLog INFO (CopiedSummary 1 2),
       EvLog INFO (PathMsg [''target'', ''200101_120000_1.jpg'']),
       EvLog ERROR (FailedSummary 1 2),
       EvLog ERROR (PathMsg [''floppy'', ''a.jpg'']),
       EvChown [''target'', ''200101_120000_1.jpg''] 1000 1000])"
    by (simp add: copier_eval)
  from copy_error_recorded_and_batch_continues [OF earlier fails run] earlier fails run
  show ?thesis
    by (simp add: copier_eval)
qed

lemma fst_copy_files:
  "fst (copy_files env tr tf t) =
     (case copy_loop env t tf ([], [], tr) of (s, f, tr1) \<Rightarrow> (s, f))"
  by (simp add: copy_files_def Let_def split: prod.splits option.splits)

lemma chown_loop_outcome:
  "chown_loop env ps tr = (r, tr') \<Longrightarrow>
   (r = None \<and>
    (\<forall>j<length ps. os_chown env (tr @ map chown_call (take j ps)) (ps ! j) 1000 1000 = None) \<and>
    tr' = tr @ map chown_call ps) \<or>
   (\<exists>k e. k < length ps \<and>
      (\<forall>j<k. os_chown env (tr @ map chown_call (take j ps)) (ps ! j) 1000 1000 = None) \<and>
      os_chown env (tr @ map chown_call (take k ps)) (ps ! k) 1000 1000 = Some e \<and>
      r = Some e \<and> tr' = tr @ map chown_call (take (Suc k) ps))"
proof (induction ps arbitrary: tr)
  case Nil
  then show ?case by simp
next
  case (Cons p ps)
  show ?case
  proof (cases "os_chown env tr p 1000 1000")
    case (Some e)
    with Cons.prems have "r = Some e" "tr' = tr @ [chown_call p]"
      by (simp_all add: chown_call_def)
    with Some have "0 < length (p # ps) \<and>
      (\<forall>j<0. os_chown env (tr @ map chown_call (take j (p # ps))) ((p # ps) ! j) 1000 1000 = None) \<and>
      os_chown env (tr @ map chown_call (take 0 (p # ps))) ((p # ps) ! 0) 1000 1000 = Some e \<and>
      r = Some e \<and> tr' = tr @ map chown_call (take (Suc 0) (p # ps))"
      by simp
    then show ?thesis by blast
  next
    case None
    let ?tr = "tr @ [chown_call p]"
    from None Cons.prems have run: "chown_loop env ps ?tr = (r, tr')"
      by (simp add: chown_call_def)
    have shift: "os_chown env (tr @ map chown_call (take j (p # ps))) ((p # ps) ! j) 1000 1000 = None"
      if "j < Suc n" and
        "\<forall>i<n. os_chown env (?tr @ map chown_call (take i ps)) (ps ! i) 1000 1000 = None"
      for j n
    proof (cases j)
      case 0
      with None show ?thesis by simp
    next
      case (Suc i)
      with that show ?thesis by simp
    qed
    from Cons.IH [OF run] show ?thesis
    proof (elim disjE exE conjE)
      assume r: "r = None" and tr': "tr' = ?tr @ map chown_call ps" and
        ok: "\<forall>j<length ps. os_chown env (?tr @ map chown_call (take j ps)) (ps ! j) 1000 1000 = None"
      have "\<forall>j<length (p # ps).
          os_chown env (tr @ map chown_call (take j (p # ps))) ((p # ps) ! j) 1000 1000 = None"
        using shift [OF _ ok] by simp
      with r tr' show ?thesis by simp
    next
      fix k e
      assume k: "k < length ps" and
        ok: "\<forall>j<k. os_chown env (?tr @ map chown_call (take j ps)) (ps ! j) 1000 1000 = None" and
        bad: "os_chown env (?tr @ map chown_call (take k ps)) (ps ! k) 1000 1000 = Some e" and
        r: "r = Some e" and tr': "tr' = ?tr @ map chown_call (take (Suc k) ps)"
      have "Suc k < length (p # ps) \<and>
        (\<forall>j<Suc k.
           os_chown env (tr @ map chown_call (take j (p # ps))) ((p # ps) ! j) 1000 1000 = None) \<and>
        os_chown env (tr @ map chown_call (take (Suc k) (p # ps))) ((p # ps) ! Suc k) 1000 1000 =
          Some e \<and>
        r = Some e \<and> tr' = tr @ map chown_call (take (Suc (Suc k)) (p # ps))"
        using k shift [OF _ ok] bad r tr' by simp
      then show ?thesis by blast
    qed
  qed
qed

lemma copy_files_unfold:
  "copy_loop env t tf ([], [], tr) = (s, f, tr1) \<Longrightarrow>
   chown_loop env s (tr1 @ summary_log (length tf) s f) = (r, tr4) \<Longrightarrow>
   copy_files env tr tf t =
     ((s, f),
      tr4 @ (case r of
               None \<Rightarrow> []
             | Some e \<Rightarrow> [EvLog WARNING (ExnMsg (add_note e CouldNotSetOwnership))]))"
  by (cases "f = []"; cases r) (simp_all add: copy_files_def summary_log_def Let_def)

text \<open>
  Claim C8, as the code has it. The ownership loop stands inside one \<^verbatim>\<open>try\<close>. From the
  trace \<open>chown_start\<close> the copy pass and its summary have left, the Copier calls
  \<^verbatim>\<open>os.chown(path, 1000, 1000)\<close> on the paths of the success list in order. Either every
  call returns, and then the run ends after the call for the last path with nothing more
  logged; or there is a first call that raises, for the path at some index \<open>k\<close>: every
  call before it returned, the run makes no call for a path after index \<open>k\<close>, and it ends
  with one record at level WARNING that carries the exception raised, with its note.
  Whatever \<^verbatim>\<open>os.chown\<close> does, \<^verbatim>\<open>copy_files\<close> returns, and the lists it returns are those
  of the copy pass.
\<close>

theorem chown_failure_is_only_a_warning:
  assumes run: "copy_files env tr target_filenames target_dir_path =
      ((success_paths, fail_paths), tr')"
  shows "fst (copy_files (env\<lparr>os_chown := ch\<rparr>) tr target_filenames target_dir_path) =
      (success_paths, fail_paths) \<and>
    ((\<forall>j<length success_paths.
        os_chown env
          (chown_start env tr target_filenames target_dir_path @
           map chown_call (take j success_paths))
          (success_paths ! j) 1000 1000 = None) \<and>
     tr' = chown_start env tr target_filenames target_dir_path @ map chown_call success_paths \<or>
     (\<exists>k e. k < length success_paths \<and>
        (\<forall>j<k.
           os_chown env
             (chown_start env tr target_filenames target_dir_path @
              map chown_call (take j success_paths))
             (success_paths ! j) 1000 1000 = None) \<and>
        os_chown env
          (chown_start env tr target_filenames target_dir_path @
           map chown_call (take k success_paths))
          (success_paths ! k) 1000 1000 = Some e \<and>
        tr' = chown_start env tr target_filenames target_dir_path @
              map chown_call (take (Suc k) success_paths) @
              [EvLog WARNING (ExnMsg (add_note e CouldNotSetOwnership))]))"
proof -
  obtain s1 f1 tr1 where
    loop: "copy_loop env target_dir_path target_filenames ([], [], tr) = (s1, f1, tr1)"
    by (cases "copy_loop env target_dir_path target_filenames ([], [], tr)")
  let ?start = "tr1 @ summary_log (length target_filenames) s1 f1"
  have start: "chown_start env tr target_filenames target_dir_path = ?start"
    using loop by (simp add: chown_start_def)
  obtain r tr4 where chown: "chown_loop env s1 ?start = (r, tr4)"
    by (cases "chown_loop env s1 ?start")
  from copy_files_unfold [OF loop chown] run have
    res: "success_paths = s1" "fail_paths = f1" and
    tr': "tr' = tr4 @ (case r of
                         None \<Rightarrow> []
                       | Some e \<Rightarrow> [EvLog WARNING (ExnMsg (add_note e CouldNotSetOwnership))])"
    by simp_all
  from loop res have lists:
    "fst (copy_files (env\<lparr>os_chown := ch\<rparr>) tr target_filenames target_dir_path) =
      (success_paths, fail_paths)"
    by (simp add: fst_copy_files copy_loop_chown_irrelevant)
  from chown_loop_outcome [OF chown] have
    "(\<forall>j<length s1. os_chown env (?start @ map chown_call (take j s1)) (s1 ! j) 1000 1000 = None) \<and>
     tr' = ?start @ map chown_call s1 \<or>
     (\<exists>k e. k < length s1 \<and>
        (\<forall>j<k. os_chown env (?start @ map chown_call (take j s1)) (s1 ! j) 1000 1000 = None) \<and>
        os_chown env (?start @ map chown_call (take k s1)) (s1 ! k) 1000 1000 = Some e \<and>
        tr' = ?start @ map chown_call (take (Suc k) s1) @
              [EvLog WARNING (ExnMsg (add_note e CouldNotSetOwnership))])"
  proof (elim disjE exE conjE)
    assume "r = None" and "tr4 = ?start @ map chown_call s1" and
      "\<forall>j<length s1. os_chown env (?start @ map chown_call (take j s1)) (s1 ! j) 1000 1000 = None"
    with tr' show ?thesis
      by simp
  next
    fix k e
    assume k: "k < length s1" and
      ok: "\<forall>j<k. os_chown env (?start @ map chown_call (take j s1)) (s1 ! j) 1000 1000 = None" and
      bad: "os_chown env (?start @ map chown_call (take k s1)) (s1 ! k) 1000 1000 = Some e" and
      r: "r = Some e" and tr4: "tr4 = ?start @ map chown_call (take (Suc k) s1)"
    from r tr4 tr' have "tr' = ?start @ map chown_call (take (Suc k) s1) @
        [EvLog WARNING (ExnMsg (add_note e CouldNotSetOwnership))]"
      by simp
    with k ok bad show ?thesis
      by blast
  qed
  with lists show ?thesis
    unfolding start res by (rule conjI)
qed

text \<open>
  Three files are copied and the \<^verbatim>\<open>chown\<close> of the second raises. The lists are those of a
  run where \<^verbatim>\<open>chown\<close> never raises, the call for the first file returned, and the run ends
  with the call for the second file and the warning.
\<close>

theorem chown_failure_is_only_a_warning_witness:
  "copy_files (chown_fails_env [''target'', ''200101_120000_1.jpg'']) []
     [([''floppy'', ''a.jpg''], ''200101_120000.jpg''),
      ([''floppy'', ''b.jpg''], ''200101_120000_1.jpg''),
      ([''floppy'', ''c.jpg''], ''200101_120000_2.jpg'')] [''target''] =
     (([[''target'', ''200101_120000.jpg''], [''target'', ''200101_120000_1.jpg''],
       [''target'', ''200101_120000_2.jpg'']], []),
      [EvCopy2 [''floppy'', ''a.jpg''] [''target'', ''200101_120000.jpg''],
       EvCopy2 [''floppy'', ''b.jpg''] [''target'', ''200101_120000_1.jpg''],
       EvCopy2 [''floppy'', ''c.jpg''] [''target'', ''200101_120000_2.jpg''],
       EvLog INFO (CopiedSummary 3 3),
       EvLog INFO (PathMsg [''target'', ''200101_120000.jpg'']),
       EvLog INFO (PathMsg [''target'', ''200101_120000_1.jpg'']),
       EvLog INFO (PathMsg [''target'', ''200101_120000_2.jpg'']),
       EvChown [''target'', ''200101_120000.jpg''] 1000 1000,
       EvChown [''target'', ''200101_120000_1.jpg''] 1000 1000,
       EvLog WARNING
         (ExnMsg (Exn OSError ''[Errno 1] Operation not permitted'' [CouldNotSetOwnership]))]) \<and>
   fst (copy_files ((chown_fails_env [''target'', ''200101_120000_1.jpg''])\<lparr>os_chown := (\<lambda>tr p uid gid. None)\<rparr>) []
     [([''floppy'', ''a.jpg''], ''200101_120000.jpg''),
      ([''floppy'', ''b.jpg''], ''200101_120000_1.jpg''),
      ([''floppy'', ''c.jpg''], ''200101_120000_2.jpg'')] [''target'']) =
     ([[''target'', ''200101_120000.jpg''], [''target'', ''200101_120000_1.jpg''],
       [''target'', ''200101_120000_2.jpg'']], []) \<and>
   chown_start (chown_fails_env [''target'', ''200101_120000_1.jpg'']) []
     [([''floppy'', ''a.jpg''], ''200101_120000.jpg''),
      ([''floppy'', ''b.jpg''], ''200101_120000_1.jpg''),
      ([''floppy'', ''c.jpg''], ''200101_120000_2.jpg'')] [''target''] =
     [EvCopy2 [''floppy'', ''a.jpg''] [''target'', ''200101_120000.jpg''],
      EvCopy2 [''floppy'', ''b.jpg''] [''target'', ''200101_120000_1.jpg''],
      EvCopy2 [''floppy'', ''c.jpg''] [''target'', ''200101_120000_2.jpg''],
      EvLog INFO (CopiedSummary 3 3),
      EvLog INFO (PathMsg [''target'', ''200101_120000.jpg'']),
      EvLog INFO (PathMsg [''target'', ''200101_120000_1.jpg'']),
      EvLog INFO (PathMsg [''target'', ''200101_120000_2.jpg''])] \<and>
   (\<exists>k e. k < length [[''target'', ''200101_120000.jpg''], [''target'', ''200101_120000_1.jpg''],
       [''target'', ''200101_120000_2.jpg'']] \<and>
      os_chown (chown_fails_env [''target'', ''200101_120000_1.jpg''])
        (chown_start (chown_fails_env [''target'', ''200101_120000_1.jpg'']) []
           [([''floppy'', ''a.jpg''], ''200101_120000.jpg''),
      ([''floppy'', ''b.jpg''], ''200101_120000_1.jpg''),
      ([''floppy'', ''c.jpg''], ''200101_120000_2.jpg'')] [''target''] @
         map chown_call (take k [[''target'', ''200101_120000.jpg''], [''target'', ''200101_120000_1.jpg''],
       [''target'', ''200101_120000_2.jpg'']]))
        ([[''target'', ''200101_120000.jpg''], [''target'', ''200101_120000_1.jpg''],
       [''target'', ''200101_120000_2.jpg'']] ! k) 1000 1000 = Some e \<and>
      [EvCopy2 [''floppy'', ''a.jpg''] [''target'', ''200101_120000.jpg''],
       EvCopy2 [''floppy'', ''b.jpg''] [''target'', ''200101_120000_1.jpg''],
       EvCopy2 [''floppy'', ''c.jpg''] [''target'', ''200101_120000_2.jpg''],
       EvLog INFO (CopiedSummary 3 3),
       EvLog INFO (PathMsg [''target'', ''200101_120000.jpg'']),
       EvLog INFO (PathMsg [''target'', ''200101_120000_1.jpg'']),
       EvLog INFO (PathMsg [''target'', ''200101_120000_2.jpg'']),
       EvChown [''target'', ''200101_120000.jpg''] 1000 1000,
       EvChown [''target'', ''200101_120000_1.jpg''] 1000 1000,
       EvLog WARNING
         (ExnMsg (Exn OSError ''[Errno 1] Operation not permitted'' [CouldNotSetOwnership]))] =
        chown_start (chown_fails_env [''target'', ''200101_120000_1.jpg'']) []
          [([''floppy'', ''a.jpg''], ''200101_120000.jpg''),
      ([''floppy'', ''b.jpg''], ''200101_120000_1.jpg''),
      ([''floppy'', ''c.jpg''], ''200101_120000_2.jpg'')] [''target''] @
        map chown_call (take (Suc k) [[''target'', ''200101_120000.jpg''], [''target'', ''200101_120000_1.jpg''],
       [''target'', ''200101_120000_2.jpg'']]) @
        [EvLog WARNING (ExnMsg (add_note e CouldNotSetOwnership))])"
proof -
  let ?env = "chown_fails_env [''target'', ''200101_120000_1.jpg'']"
  let ?tf = "[([''floppy'', ''a.jpg''], ''200101_120000.jpg''),
      ([''floppy'', ''b.jpg''], ''200101_120000_1.jpg''),
      ([''floppy'', ''c.jpg''], ''200101_120000_2.jpg'')]"
  let ?s = "[[''target'', ''200101_120000.jpg''], [''target'', ''200101_120000_1.jpg''],
       [''target'', ''200101_120000_2.jpg'']]"
  let ?tr = "[EvCopy2 [''floppy'', ''a.jpg''] [''target'', ''200101_120000.jpg''],
       EvCopy2 [''floppy'', ''b.jpg''] [''target'', ''200101_120000_1.jpg''],
       EvCopy2 [''floppy'', ''c.jpg''] [''target'', ''200101_120000_2.jpg''],
       EvLog INFO (CopiedSummary 3 3),
       EvLog INFO (PathMsg [''target'', ''200101_120000.jpg'']),
       EvLog INFO (PathMsg [''target'', ''200101_120000_1.jpg'']),
       EvLog INFO (PathMsg [''target'', ''200101_120000_2.jpg'']),
       EvChown [''target'', ''200101_120000.jpg''] 1000 1000,
       EvChown [''target'', ''200101_120000_1.jpg''] 1000 1000,
       EvLog WARNING
         (ExnMsg (Exn OSError ''[Errno 1] Operation not permitted'' [CouldNotSetOwnership]))]"
  have run: "copy_files ?env [] ?tf [''target''] = ((?s, []), ?tr)"
    by (simp add: copier_eval)
  have start: "chown_start ?env [] ?tf [''target''] =
     [EvCopy2 [''floppy'', ''a.jpg''] [''target'', ''200101_120000.jpg''],
      EvCopy2 [''floppy'', ''b.jpg''] [''target'', ''200101_120000_1.jpg''],
      EvCopy2 [''floppy'', ''c.jpg''] [''target'', ''200101_120000_2.jpg''],
      EvLog INFO (CopiedSummary 3 3),
      EvLog INFO (PathMsg [''target'', ''200101_120000.jpg'']),
      EvLog INFO (PathMsg [''target'', ''200101_120000_1.jpg'']),
      EvLog INFO (PathMsg [''target'', ''200101_120000_2.jpg''])]"
    by (simp add: chown_start_def summary_log_def copier_eval)
  note outcome = chown_failure_is_only_a_warning [OF run, of "\<lambda>tr p uid gid. None"]
  from outcome have
    lists: "fst (copy_files (?env\<lparr>os_chown := (\<lambda>tr p uid gid. None)\<rparr>) [] ?tf [''target'']) =
      (?s, [])"
    by (rule conjunct1)
  have not_all: "?tr \<noteq> chown_start ?env [] ?tf [''target''] @ map chown_call ?s"
    by (simp add: start chown_call_def)
  from outcome not_all have
    "\<exists>k e. k < length ?s \<and>
      os_chown ?env (chown_start ?env [] ?tf [''target''] @ map chown_call (take k ?s))
        (?s ! k) 1000 1000 = Some e \<and>
      ?tr = chown_start ?env [] ?tf [''target''] @ map chown_call (take (Suc k) ?s) @
        [EvLog WARNING (ExnMsg (add_note e CouldNotSetOwnership))]"
    by blast
  with run lists start show ?thesis
    by (intro conjI)
qed

text \<open>
  The claim as the spec words it fails: ownership is not attempted for each successfully
  copied file. Here the copy of the third file succeeded and its \<^verbatim>\<open>chown\<close> would have
  succeeded, but the \<^verbatim>\<open>chown\<close> of the second file raised and the third is never
  attempted.
\<close>

theorem chown_stops_at_first_failure:
  "fst (copy_files (chown_fails_env [''target'', ''200101_120000_1.jpg'']) []
     [([''floppy'', ''a.jpg''], ''200101_120000.jpg''),
      ([''floppy'', ''b.jpg''], ''200101_120000_1.jpg''),
      ([''floppy'', ''c.jpg''], ''200101_120000_2.jpg'')] [''target'']) =
     ([[''target'', ''200101_120000.jpg''], [''target'', ''200101_120000_1.jpg''],
       [''target'', ''200101_120000_2.jpg'']], []) \<and>
   os_chown (chown_fails_env [''target'', ''200101_120000_1.jpg'']) [] [''target'', ''200101_120000_2.jpg''] 1000 1000 = None \<and>
   filter is_chown_call (snd (copy_files (chown_fails_env [''target'', ''200101_120000_1.jpg'']) []
     [([''floppy'', ''a.jpg''], ''200101_120000.jpg''),
      ([''floppy'', ''b.jpg''], ''200101_120000_1.jpg''),
      ([''floppy'', ''c.jpg''], ''200101_120000_2.jpg'')] [''target''])) =
     [EvChown [''target'', ''200101_120000.jpg''] 1000 1000,
      EvChown [''target'', ''200101_120000_1.jpg''] 1000 1000] \<and>
   EvChown [''target'', ''200101_120000_2.jpg''] 1000 1000 \<notin>
     set (snd (copy_files (chown_fails_env [''target'', ''200101_120000_1.jpg'']) []
       [([''floppy'', ''a.jpg''], ''200101_120000.jpg''),
      ([''floppy'', ''b.jpg''], ''200101_120000_1.jpg''),
      ([''floppy'', ''c.jpg''], ''200101_120000_2.jpg'')] [''target'']))"
  by (simp add: copier_eval)

subsection \<open>The Wiper\<close>

lemmas wiper_eval =
  wipe_disk_def glob_names_def wipe_prompt_trace_def quiet_env_def yes_env_def joinpath_def
  Let_def
  lower_def lower_char_def

lemma lower_char_y: "lower_char c = CHR ''y'' \<longleftrightarrow> c = CHR ''y'' \<or> c = CHR ''Y''"
  by (auto simp: lower_char_def split: if_splits)

lemma lower_char_e: "lower_char c = CHR ''e'' \<longleftrightarrow> c = CHR ''e'' \<or> c = CHR ''E''"
  by (auto simp: lower_char_def split: if_splits)

lemma lower_char_s: "lower_char c = CHR ''s'' \<longleftrightarrow> c = CHR ''s'' \<or> c = CHR ''S''"
  by (auto simp: lower_char_def split: if_splits)

lemma lower_yes_iff:
  "lower answer = ''yes'' \<longleftrightarrow>
   answer \<in> {''yes'', ''yeS'', ''yEs'', ''yES'', ''Yes'', ''YeS'', ''YEs'', ''YES''}"
proof -
  have "lower answer = ''yes'' \<longleftrightarrow>
      (\<exists>a b c. answer = [a, b, c] \<and> lower_char a = CHR ''y'' \<and> lower_char b = CHR ''e'' \<and>
         lower_char c = CHR ''s'')"
    by (auto simp: lower_def map_eq_Cons_conv)
  then show ?thesis
    by (auto simp: lower_char_y lower_char_e lower_char_s)
qed

lemma remove_loop_appends: "\<exists>evs. snd (remove_loop env ps tr) = tr @ evs"
proof (induction ps arbitrary: tr)
  case Nil
  then show ?case by simp
next
  case (Cons p ps)
  have "\<exists>evs. snd (remove_loop env ps (tr @ pre)) = tr @ evs" for pre
    using Cons.IH [of "tr @ pre"] by auto
  from this [of "[EvIsDir p, EvRmtree p, EvLog INFO (Removed p)]"]
    this [of "[EvIsDir p, EvRemove p, EvLog INFO (Removed p)]"]
  show ?case
    by (auto simp: Let_def split: option.splits)
qed


text \<open>
  Claim C7. A run of the wipe step deletes something only if the text typed at the prompt
  lower-cases to \<^verbatim>\<open>yes\<close>. When the directory could be listed and the text typed does not
  lower-case to \<^verbatim>\<open>yes\<close>, the step returns normally, the only events after the prompt are
  the call of \<^verbatim>\<open>input\<close> and the log record that nothing has been removed, and no entry
  is deleted. The texts that lower-case to \<^verbatim>\<open>yes\<close> are its eight spellings in upper and
  lower case.
\<close>

theorem wipe_only_after_yes:
  assumes run: "wipe_disk env tr disk_path = (r, tr')"
  shows "(filter is_removal tr' \<noteq> filter is_removal tr \<longrightarrow>
       (\<exists>names answer.
          os_scandir env (tr @ [EvLog WARNING (WillBeRemoved disk_path),
                               EvLog WARNING DirContentsHeader]) disk_path = Inr names \<and>
          os_input env (wipe_prompt_trace tr disk_path names) = Inr answer \<and>
          lower answer = ''yes'')) \<and>
    (\<forall>names answer.
       os_scandir env (tr @ [EvLog WARNING (WillBeRemoved disk_path),
                            EvLog WARNING DirContentsHeader]) disk_path = Inr names \<and>
       os_input env (wipe_prompt_trace tr disk_path names) = Inr answer \<and>
       lower answer \<noteq> ''yes'' \<longrightarrow>
       r = Inr () \<and>
       tr' = wipe_prompt_trace tr disk_path names @ [EvInput, EvLog INFO NothingRemoved] \<and>
       filter is_removal tr' = filter is_removal tr) \<and>
    (lower typed = ''yes'' \<longleftrightarrow>
       typed \<in> {''yes'', ''yeS'', ''yEs'', ''yES'', ''Yes'', ''YeS'', ''YEs'', ''YES''})"
proof (intro conjI allI impI)
  show "lower typed = ''yes'' \<longleftrightarrow>
       typed \<in> {''yes'', ''yeS'', ''yEs'', ''yES'', ''Yes'', ''YeS'', ''YEs'', ''YES''}"
    by (rule lower_yes_iff)
next
  assume changed: "filter is_removal tr' \<noteq> filter is_removal tr"
  show "\<exists>names answer.
      os_scandir env (tr @ [EvLog WARNING (WillBeRemoved disk_path),
                           EvLog WARNING DirContentsHeader]) disk_path = Inr names \<and>
      os_input env (wipe_prompt_trace tr disk_path names) = Inr answer \<and>
      lower answer = ''yes''"
  proof (rule ccontr)
    assume no: "\<not> (\<exists>names answer.
        os_scandir env (tr @ [EvLog WARNING (WillBeRemoved disk_path),
                             EvLog WARNING DirContentsHeader]) disk_path = Inr names \<and>
        os_input env (wipe_prompt_trace tr disk_path names) = Inr answer \<and>
        lower answer = ''yes'')"
    from run no have "filter is_removal tr' = filter is_removal tr"
      by (auto simp: wipe_disk_def wipe_prompt_trace_def Let_def split: sum.splits if_splits)
    with changed show False by simp
  qed
next
  fix names answer
  assume "os_scandir env (tr @ [EvLog WARNING (WillBeRemoved disk_path),
                            EvLog WARNING DirContentsHeader]) disk_path = Inr names \<and>
       os_input env (wipe_prompt_trace tr disk_path names) = Inr answer \<and>
       lower answer \<noteq> ''yes''"
  with run have
    "r = Inr () \<and>
     tr' = wipe_prompt_trace tr disk_path names @ [EvInput, EvLog INFO NothingRemoved]"
    by (auto simp: wipe_disk_def wipe_prompt_trace_def Let_def)
  then show "r = Inr ()"
    "tr' = wipe_prompt_trace tr disk_path names @ [EvInput, EvLog INFO NothingRemoved]"
    "filter is_removal tr' = filter is_removal tr"
    by (simp_all add: wipe_prompt_trace_def)
qed

theorem wipe_only_after_yes_witness:
  "wipe_disk (quiet_env (\<lambda>p. [''a.jpg''])) [] [''floppy''] =
     (Inr (),
      [EvLog WARNING (WillBeRemoved [''floppy'']), EvLog WARNING DirContentsHeader,
       EvScandir [''floppy''], EvLog WARNING (DirContents [''a.jpg'']),
       EvInput, EvLog INFO NothingRemoved]) \<and>
   os_input (quiet_env (\<lambda>p. [''a.jpg''])) (wipe_prompt_trace [] [''floppy''] [''a.jpg'']) =
     Inr ''no'' \<and>
   lower ''no'' \<noteq> ''yes'' \<and>
   wipe_disk (yes_env (\<lambda>p. [''a.jpg''])) [] [''floppy''] =
     (Inr (),
      [EvLog WARNING (WillBeRemoved [''floppy'']), EvLog WARNING DirContentsHeader,
       EvScandir [''floppy''], EvLog WARNING (DirContents [''a.jpg'']),
       EvInput, EvScandir [''floppy''], EvIsDir [''floppy'', ''a.jpg''],
       EvRemove [''floppy'', ''a.jpg''], EvLog INFO (Removed [''floppy'', ''a.jpg''])]) \<and>
   os_input (yes_env (\<lambda>p. [''a.jpg''])) (wipe_prompt_trace [] [''floppy''] [''a.jpg'']) =
     Inr ''YES'' \<and>
   lower ''YES'' = ''yes''"
proof -
  have declined: "wipe_disk (quiet_env (\<lambda>p. [''a.jpg''])) [] [''floppy''] =
     (Inr (),
      [EvLog WARNING (WillBeRemoved [''floppy'']), EvLog WARNING DirContentsHeader,
       EvScandir [''floppy''], EvLog WARNING (DirContents [''a.jpg'']),
       EvInput, EvLog INFO NothingRemoved])"
    by (simp add: wiper_eval)
  have confirmed: "wipe_disk (yes_env (\<lambda>p. [''a.jpg''])) [] [''floppy''] =
     (Inr (),
      [EvLog WARNING (WillBeRemoved [''floppy'']), EvLog WARNING DirContentsHeader,
       EvScandir [''floppy''], EvLog WARNING (DirContents [''a.jpg'']),
       EvInput, EvScandir [''floppy''], EvIsDir [''floppy'', ''a.jpg''],
       EvRemove [''floppy'', ''a.jpg''], EvLog INFO (Removed [''floppy'', ''a.jpg''])])"
    by (simp add: wiper_eval)
  from wipe_only_after_yes [OF declined, of "''no''"] wipe_only_after_yes [OF confirmed, of "''YES''"]
    declined confirmed
  show ?thesis
    by (simp add: wiper_eval)
qed

subsection \<open>The script body\<close>

lemmas main_eval =
  main_def find_pictures_def glob_names_def glob_jpg_def lower_def lower_char_def namer_eval
  copier_eval

lemma find_pictures_no_wipe:
  "filter is_wipe_event (snd (find_pictures env tr p)) = filter is_wipe_event tr"
  by (simp add: find_pictures_def Let_def split: sum.splits)

lemma namer_loop_no_wipe:
  "filter is_wipe_event (snd (create_target_filenames_loop env tdf ps nn tr)) =
   filter is_wipe_event tr"
  by (induction ps arbitrary: nn tr) (simp_all add: Let_def split: sum.splits)

lemma create_target_filenames_no_wipe:
  "filter is_wipe_event (snd (create_target_filenames env tr p ps)) = filter is_wipe_event tr"
  by (simp add: create_target_filenames_def namer_loop_no_wipe split: sum.splits)

lemma copy_loop_no_wipe:
  "filter is_wipe_event (snd (snd (copy_loop env t xs (s, f, tr)))) = filter is_wipe_event tr"
proof (induction xs arbitrary: s f tr)
  case Nil
  then show ?case by simp
next
  case (Cons x xs)
  obtain c n where x: "x = (c, n)" by (cases x)
  show ?case
    by (simp add: x Let_def Cons.IH split: sum.splits)
qed

lemma chown_loop_no_wipe:
  "filter is_wipe_event (snd (chown_loop env ps tr)) = filter is_wipe_event tr"
  by (induction ps arbitrary: tr) (simp_all split: option.splits)

lemma copy_files_no_wipe:
  "filter is_wipe_event (snd (copy_files env tr tf t)) = filter is_wipe_event tr"
proof -
  obtain s f tr1 where loop: "copy_loop env t tf ([], [], tr) = (s, f, tr1)"
    by (cases "copy_loop env t tf ([], [], tr)")
  from copy_loop_no_wipe [of env t tf "[]" "[]" tr] loop
  have copied: "filter is_wipe_event tr1 = filter is_wipe_event tr"
    by simp
  have chowned: "filter is_wipe_event tr4 = filter is_wipe_event tr0"
    if "chown_loop env s tr0 = (r, tr4)" for r tr4 tr0
    using chown_loop_no_wipe [of env s tr0] that by simp
  show ?thesis
    by (auto simp: copy_files_def loop Let_def copied filter_map comp_def
        split: prod.splits option.splits dest!: chowned)
qed

lemma wipe_disk_leaves_mark:
  "EvLog WARNING (WillBeRemoved disk_path) \<in> set (snd (wipe_disk env tr disk_path))"
proof -
  have "EvLog WARNING (WillBeRemoved disk_path) \<in> set (snd (remove_loop env ps (tr0 @ pre)))"
    if "EvLog WARNING (WillBeRemoved disk_path) \<in> set tr0" for ps tr0 pre
    using remove_loop_appends [of env ps "tr0 @ pre"] that by auto
  from this [of "tr @ [EvLog WARNING (WillBeRemoved disk_path)]"] show ?thesis
    by (auto simp: wipe_disk_def Let_def split: sum.splits)
qed

text \<open>
  With the flag set, root privilege and no copy failure, the script does run the wipe
  step, and \<open>is_wipe_event\<close> sees it.
\<close>

lemma main_wipes_after_full_copy:
  assumes "find_pictures env tr (source a) = (Inr pictures_paths, tr1)"
    and "create_target_filenames env tr1 (target a) pictures_paths = (Inr target_filenames, tr2)"
    and "copy_files env tr2 target_filenames (target a) = ((success_paths, []), tr3)"
    and "wipe a" and "os_getuid env = 0"
  shows "main env tr a = wipe_disk env tr3 (source a)"
    and "filter is_wipe_event (snd (main env tr a)) \<noteq> []"
proof -
  from assms show run: "main env tr a = wipe_disk env tr3 (source a)"
    by (simp add: main_def)
  have "filter is_wipe_event (snd (wipe_disk env tr3 (source a))) \<noteq> []"
    using wipe_disk_leaves_mark [of "source a" env tr3] by (force simp: filter_empty_conv)
  with run show "filter is_wipe_event (snd (main env tr a)) \<noteq> []"
    by simp
qed

text \<open>
  Claim C1. When the Scanner and the Namer succeed and the failure list the copy phase
  returns is not empty, the script produces no event of the wipe step, whatever the wipe
  flag is: no prompt, no \<^verbatim>\<open>is_dir\<close>, no \<^verbatim>\<open>rmtree\<close> and no \<^verbatim>\<open>remove\<close> call, and none of
  the log records of \<^verbatim>\<open>wipe_disk\<close>.
\<close>

theorem wipe_skipped_after_copy_failure:
  assumes scan: "find_pictures env tr (source a) = (Inr pictures_paths, tr1)"
    and names: "create_target_filenames env tr1 (target a) pictures_paths =
      (Inr target_filenames, tr2)"
    and copy: "copy_files env tr2 target_filenames (target a) =
      ((success_paths, fail_paths), tr3)"
    and failed: "fail_paths \<noteq> []"
  shows "filter is_wipe_event (snd (main env tr (a\<lparr>wipe := flag\<rparr>))) = filter is_wipe_event tr"
proof -
  from find_pictures_no_wipe [of env tr "source a"] scan
  have "filter is_wipe_event tr1 = filter is_wipe_event tr" by simp
  moreover from create_target_filenames_no_wipe [of env tr1 "target a" pictures_paths] names
  have "filter is_wipe_event tr2 = filter is_wipe_event tr1" by simp
  moreover from copy_files_no_wipe [of env tr2 target_filenames "target a"] copy
  have "filter is_wipe_event tr3 = filter is_wipe_event tr2" by simp
  ultimately have "filter is_wipe_event tr3 = filter is_wipe_event tr" by simp
  with scan names copy failed show ?thesis
    by (simp add: main_def)
qed


theorem wipe_skipped_after_copy_failure_witness:
  "find_pictures
     (copy_fails_env (\<lambda>p. if p = [''floppy''] then [''a.jpg''] else []) [''floppy'', ''a.jpg''])
     [] (source \<lparr>source = [''floppy''], target = [''target''], wipe = True\<rparr>) =
     (Inr [[''floppy'', ''a.jpg'']], [EvScandir [''floppy''], EvLog INFO (PicturesFound 1)]) \<and>
   fst (copy_files
     (copy_fails_env (\<lambda>p. if p = [''floppy''] then [''a.jpg''] else []) [''floppy'', ''a.jpg''])
     [EvScandir [''floppy''], EvLog INFO (PicturesFound 1),
      EvScandir [''target''], EvStat [''floppy'', ''a.jpg'']]
     [([''floppy'', ''a.jpg''], ''200101_120000.jpg'')] [''target'']) =
     ([], [[''floppy'', ''a.jpg'']]) \<and>
   [[''floppy'', ''a.jpg'']] \<noteq> [] \<and>
   main
     (copy_fails_env (\<lambda>p. if p = [''floppy''] then [''a.jpg''] else []) [''floppy'', ''a.jpg''])
     [] \<lparr>source = [''floppy''], target = [''target''], wipe = True\<rparr> =
     (Inr (),
      [EvScandir [''floppy''], EvLog INFO (PicturesFound 1),
       EvScandir [''target''], EvStat [''floppy'', ''a.jpg''],
       EvCopy2 [''floppy'', ''a.jpg''] [''target'', ''200101_120000.jpg''],
       EvLog ERROR (ExnMsg (Exn OSError ''[Errno 28] No space left on device'' [])),
       EvLog INFO (CopiedSummary 0 1),
       EvLog ERROR (FailedSummary 1 1),
       EvLog ERROR (PathMsg [''floppy'', ''a.jpg'']),
       EvLog WARNING AbortingWipe])"
proof -
  let ?env = "copy_fails_env (\<lambda>p. if p = [''floppy''] then [''a.jpg''] else [])
      [''floppy'', ''a.jpg'']"
  let ?a = "\<lparr>source = [''floppy''], target = [''target''], wipe = True\<rparr>"
  let ?tr1 = "[EvScandir [''floppy''], EvLog INFO (PicturesFound 1)]"
  let ?tr2 = "?tr1 @ [EvScandir [''target''], EvStat [''floppy'', ''a.jpg'']]"
  let ?tr3 = "?tr2 @
      [EvCopy2 [''floppy'', ''a.jpg''] [''target'', ''200101_120000.jpg''],
       EvLog ERROR (ExnMsg (Exn OSError ''[Errno 28] No space left on device'' [])),
       EvLog INFO (CopiedSummary 0 1),
       EvLog ERROR (FailedSummary 1 1),
       EvLog ERROR (PathMsg [''floppy'', ''a.jpg''])]"
  have scan: "find_pictures ?env [] (source ?a) = (Inr [[''floppy'', ''a.jpg'']], ?tr1)"
    by (simp add: main_eval)
  have names: "create_target_filenames ?env ?tr1 (target ?a) [[''floppy'', ''a.jpg'']] =
      (Inr [([''floppy'', ''a.jpg''], ''200101_120000.jpg'')], ?tr2)"
    by (simp add: main_eval)
  have copy: "copy_files ?env ?tr2 [([''floppy'', ''a.jpg''], ''200101_120000.jpg'')] (target ?a) =
      (([], [[''floppy'', ''a.jpg'']]), ?tr3)"
    by (simp add: main_eval)
  have failed: "[[''floppy'', ''a.jpg'']] \<noteq> []"
    by simp
  have run: "main ?env [] ?a = (Inr (), ?tr3 @ [EvLog WARNING AbortingWipe])"
    using scan names copy by (simp add: main_def copy_fails_env_def quiet_env_def)
  from wipe_skipped_after_copy_failure [OF scan names copy failed, of True] scan copy run
  show ?thesis
    by simp
qed

subsection \<open>An unreadable modification time\<close>

lemma extract_timestamp_stat_error:
  "os_stat_mtime env tr p = Inl e \<Longrightarrow>
   extract_timestamp env tr p =
     Inl (if exn_class e = AttributeError then add_note e (MetadataNoTimestamp p) else e)"
  by (simp add: extract_timestamp_def)

text \<open>
  Claim C6. Let the Namer have named the candidates \<open>earlier\<close>, and let \<^verbatim>\<open>path.stat()\<close>
  raise the exception \<open>e\<close> for the next candidate. Then \<^verbatim>\<open>extract_timestamp\<close> raises, and
  the run of the Namer ends right after that \<^verbatim>\<open>stat\<close> with the exception raised: it
  returns no mapping, so no name and no time stamp is made up for the candidate. The
  exception raised is \<open>e\<close> with its class and its own message; when \<open>e\<close> is an
  \<^verbatim>\<open>AttributeError\<close> the note \<^verbatim>\<open>Metadata of ... does not include required timestamp\<close> is
  added to it, for every other class it is passed on as it is.
\<close>

theorem unreadable_mtime_aborts_with_diagnostic:
  assumes earlier: "create_target_filenames env tr0 target_dir_path earlier = (Inr assigned, tr)"
    and unreadable: "os_stat_mtime env tr filepath = Inl e"
  shows "\<exists>raised.
      extract_timestamp env tr filepath = Inl raised \<and>
      create_target_filenames env tr0 target_dir_path (earlier @ filepath # later) =
        (Inl raised, tr @ [EvStat filepath]) \<and>
      exn_class raised = exn_class e \<and> exn_msg raised = exn_msg e \<and>
      exn_notes raised =
        exn_notes e @
        (if exn_class e = AttributeError then [MetadataNoTimestamp filepath] else [])"
proof -
  let ?raised = "if exn_class e = AttributeError
    then add_note e (MetadataNoTimestamp filepath) else e"
  from earlier obtain target_dir_files where
    tdf: "os_scandir env tr0 target_dir_path = Inr target_dir_files" and
    earlier_run: "create_target_filenames_loop env target_dir_files earlier []
      (tr0 @ [EvScandir target_dir_path]) = (Inr assigned, tr)"
    by (auto simp: create_target_filenames_def split: sum.splits)
  from unreadable have raised: "extract_timestamp env tr filepath = Inl ?raised"
    by (rule extract_timestamp_stat_error)
  then have "create_target_filenames_loop env target_dir_files (filepath # later) assigned tr =
      (Inl ?raised, tr @ [EvStat filepath])"
    by simp
  with tdf earlier_run have
    "create_target_filenames env tr0 target_dir_path (earlier @ filepath # later) =
      (Inl ?raised, tr @ [EvStat filepath])"
    by (simp add: create_target_filenames_def loop_append)
  moreover have "exn_class ?raised = exn_class e" "exn_msg ?raised = exn_msg e"
    "exn_notes ?raised =
       exn_notes e @
       (if exn_class e = AttributeError then [MetadataNoTimestamp filepath] else [])"
    by (simp_all add: add_note_def)
  ultimately show ?thesis
    using raised by blast
qed

text \<open>
  Two runs: the \<^verbatim>\<open>stat\<close> of the second candidate raises an \<^verbatim>\<open>OSError\<close>, which leaves the
  Namer with its message and no note; and a \<^verbatim>\<open>stat\<close> result without \<^verbatim>\<open>st_mtime\<close> raises an
  \<^verbatim>\<open>AttributeError\<close>, which leaves the Namer with the note added.
\<close>

theorem unreadable_mtime_aborts_with_diagnostic_witness:
  "create_target_filenames (stat_fails_env [''floppy'', ''b.jpg'']) [] [''target'']
     [[''floppy'', ''a.jpg'']] =
     (Inr [([''floppy'', ''a.jpg''], ''200101_120000.jpg'')],
      [EvScandir [''target''], EvStat [''floppy'', ''a.jpg'']]) \<and>
   os_stat_mtime (stat_fails_env [''floppy'', ''b.jpg''])
     [EvScandir [''target''], EvStat [''floppy'', ''a.jpg'']] [''floppy'', ''b.jpg''] =
     Inl (Exn OSError ''[Errno 2] No such file or directory'' []) \<and>
   create_target_filenames (stat_fails_env [''floppy'', ''b.jpg'']) [] [''target'']
     ([[''floppy'', ''a.jpg'']] @ [''floppy'', ''b.jpg''] # [[''floppy'', ''c.jpg'']]) =
     (Inl (Exn OSError ''[Errno 2] No such file or directory'' []),
      [EvScandir [''target''], EvStat [''floppy'', ''a.jpg'']] @ [EvStat [''floppy'', ''b.jpg'']]) \<and>
   create_target_filenames no_mtime_env [] [''target''] [] = (Inr [], [EvScandir [''target'']]) \<and>
   os_stat_mtime no_mtime_env [EvScandir [''target'']] [''floppy'', ''a.jpg''] =
     Inl (Exn AttributeError ''object has no attribute st_mtime'' []) \<and>
   create_target_filenames no_mtime_env [] [''target'']
     ([] @ [''floppy'', ''a.jpg''] # [[''floppy'', ''b.jpg'']]) =
     (Inl (Exn AttributeError ''object has no attribute st_mtime''
             [MetadataNoTimestamp [''floppy'', ''a.jpg'']]),
      [EvScandir [''target'']] @ [EvStat [''floppy'', ''a.jpg'']])"
proof -
  let ?env = "stat_fails_env [''floppy'', ''b.jpg'']"
  have earlier: "create_target_filenames ?env [] [''target''] [[''floppy'', ''a.jpg'']] =
     (Inr [([''floppy'', ''a.jpg''], ''200101_120000.jpg'')],
      [EvScandir [''target''], EvStat [''floppy'', ''a.jpg'']])"
    by (simp add: namer_eval stat_fails_env_def)
  have unreadable: "os_stat_mtime ?env
     [EvScandir [''target''], EvStat [''floppy'', ''a.jpg'']] [''floppy'', ''b.jpg''] =
     Inl (Exn OSError ''[Errno 2] No such file or directory'' [])"
    by (simp add: stat_fails_env_def quiet_env_def)
  have no_earlier: "create_target_filenames no_mtime_env [] [''target''] [] =
     (Inr [], [EvScandir [''target'']])"
    by (simp add: namer_eval no_mtime_env_def)
  have no_mtime: "os_stat_mtime no_mtime_env [EvScandir [''target'']] [''floppy'', ''a.jpg''] =
     Inl (Exn AttributeError ''object has no attribute st_mtime'' [])"
    by (simp add: no_mtime_env_def quiet_env_def)
  from unreadable_mtime_aborts_with_diagnostic
    [OF earlier unreadable, where later = "[[''floppy'', ''c.jpg'']]"]
  have os_error: "create_target_filenames ?env [] [''target'']
     ([[''floppy'', ''a.jpg'']] @ [''floppy'', ''b.jpg''] # [[''floppy'', ''c.jpg'']]) =
     (Inl (Exn OSError ''[Errno 2] No such file or directory'' []),
      [EvScandir [''target''], EvStat [''floppy'', ''a.jpg'']] @ [EvStat [''floppy'', ''b.jpg'']])"
    by (auto simp: exn.expand)
  from unreadable_mtime_aborts_with_diagnostic
    [OF no_earlier no_mtime, where later = "[[''floppy'', ''b.jpg'']]"]
  have attribute_error: "create_target_filenames no_mtime_env [] [''target'']
     ([] @ [''floppy'', ''a.jpg''] # [[''floppy'', ''b.jpg'']]) =
     (Inl (Exn AttributeError ''object has no attribute st_mtime''
             [MetadataNoTimestamp [''floppy'', ''a.jpg'']]),
      [EvScandir [''target'']] @ [EvStat [''floppy'', ''a.jpg'']])"
    by (auto simp: exn.expand)
  from earlier unreadable os_error no_earlier no_mtime attribute_error show ?thesis
    by (intro conjI)
qed

end
